theory Spec2Isabelle
  imports Main "HOL-Library.Sublist"
begin

section \<open>Strings\<close>

text \<open>
  A Python \<open>str\<close> is modelled as a \<^typ>\<open>string\<close>; a character of the model stands for
  a code point below 256.  The three characters that cannot be written inside a string
  literal get names.
\<close>

abbreviation squote :: char where "squote \<equiv> CHR 0x27"
abbreviation dquote :: char where "dquote \<equiv> CHR 0x22"
abbreviation backslash :: char where "backslash \<equiv> CHR 0x5C"

text \<open>\<open>s.startswith(p)\<close>.\<close>

fun startswith :: "string \<Rightarrow> string \<Rightarrow> bool" where
  "startswith s [] = True"
| "startswith [] (p # ps) = False"
| "startswith (c # cs) (p # ps) = (c = p \<and> startswith cs ps)"

text \<open>\<open>s.split('/')\<close>: the pieces between the separators; one more piece than separators.\<close>

fun split_sep :: "string \<Rightarrow> string list" where
  "split_sep [] = [[]]"
| "split_sep (c # cs) =
     (if c = CHR ''/'' then [] # split_sep cs
      else (case split_sep cs of [] \<Rightarrow> [[c]] | p # ps \<Rightarrow> (c # p) # ps))"

text \<open>\<open>'/'.join(parts)\<close>.\<close>

fun join_sep :: "string list \<Rightarrow> string" where
  "join_sep [] = []"
| "join_sep [p] = p"
| "join_sep (p # q # ps) = p @ ''/'' @ join_sep (q # ps)"

text \<open>\<open>s.lstrip('/')\<close>.\<close>

definition lstrip_sep :: "string \<Rightarrow> string" where
  "lstrip_sep s = dropWhile (\<lambda>c. c = CHR ''/'') s"

text \<open>\<open>s.replace("\\", "/")\<close>: every backslash becomes a slash.\<close>

definition replace_backslashes :: "string \<Rightarrow> string" where
  "replace_backslashes s = map (\<lambda>c. if c = backslash then CHR ''/'' else c) s"

text \<open>
  \<open>s.replace(old, new, 1)\<close>: the first occurrence of \<open>old\<close>, searched from the left, is
  replaced; a string without an occurrence is returned as it is.
\<close>

fun replace_first :: "string \<Rightarrow> string \<Rightarrow> string \<Rightarrow> string" where
  "replace_first old new [] = (if old = [] then new else [])"
| "replace_first old new (c # cs) =
     (if startswith (c # cs) old then new @ drop (length old) (c # cs)
      else c # replace_first old new cs)"


section \<open>Paths\<close>

subsection \<open>The \<open>posixpath\<close> functions behind \<open>os.path.relpath\<close>\<close>

text \<open>
  The scripts call \<open>os.path.relpath\<close>, which is library code.  Its POSIX version is
  transcribed here from \<open>posixpath.py\<close>; the current working directory, which
  \<open>abspath\<close> reads from the process, is a parameter.
\<close>

datatype path_error = ValueError

definition isabs :: "string \<Rightarrow> bool" where
  "isabs p = startswith p ''/''"

definition join :: "string \<Rightarrow> string \<Rightarrow> string" where
  "join a b =
     (if startswith b ''/'' then b
      else if a = [] \<or> last a = CHR ''/'' then a @ b
      else a @ ''/'' @ b)"

text \<open>The loop of \<open>normpath\<close> over the components, with \<open>new_comps\<close> as accumulator.\<close>

fun normpath_comps :: "bool \<Rightarrow> string list \<Rightarrow> string list \<Rightarrow> string list" where
  "normpath_comps initial_slashes new_comps [] = new_comps"
| "normpath_comps initial_slashes new_comps (c # comps) =
     (if c = [] \<or> c = ''.'' then normpath_comps initial_slashes new_comps comps
      else if c \<noteq> ''..'' \<or> (\<not> initial_slashes \<and> new_comps = [])
                \<or> (new_comps \<noteq> [] \<and> last new_comps = ''..'')
        then normpath_comps initial_slashes (new_comps @ [c]) comps
      else if new_comps \<noteq> [] then normpath_comps initial_slashes (butlast new_comps) comps
      else normpath_comps initial_slashes new_comps comps)"

definition normpath :: "string \<Rightarrow> string" where
  "normpath path =
     (if path = [] then ''.''
      else
        let initial_slashes = (if \<not> startswith path ''/'' then 0
                               else if startswith path ''//'' \<and> \<not> startswith path ''///''
                                 then 2 else (1::nat));
            comps = normpath_comps (initial_slashes \<noteq> 0) [] (split_sep path);
            path' = replicate initial_slashes (CHR ''/'') @ join_sep comps
        in if path' = [] then ''.'' else path')"

definition abspath :: "string \<Rightarrow> string \<Rightarrow> string" where
  "abspath cwd path = normpath (if isabs path then path else join cwd path)"

text \<open>\<open>len(commonprefix([start_list, path_list]))\<close>.\<close>

fun commonprefix_len :: "string list \<Rightarrow> string list \<Rightarrow> nat" where
  "commonprefix_len (x # xs) (y # ys) = (if x = y then Suc (commonprefix_len xs ys) else 0)"
| "commonprefix_len _ _ = 0"

definition tail_list :: "string \<Rightarrow> string list" where
  "tail_list p = (let t = lstrip_sep p in if t = [] then [] else split_sep t)"

definition posix_relpath :: "string \<Rightarrow> string \<Rightarrow> string \<Rightarrow> path_error + string" where
  "posix_relpath cwd path start =
     (if path = [] then Inl ValueError
      else
        let start_list = tail_list (abspath cwd start);
            path_list = tail_list (abspath cwd path);
            i = commonprefix_len start_list path_list;
            rel_list = replicate (length start_list - i) ''..'' @ drop i path_list
        in if rel_list = [] then Inr ''.'' else Inr (join_sep rel_list))"

subsection \<open>\<open>pathlib\<close> paths\<close>

text \<open>
  A \<open>Path\<close> of the POSIX flavour: its root (empty, one slash or two) and the components
  after it.  Parsing drops empty components and single dots, as \<open>pathlib\<close> does.
\<close>

datatype path = Path (root: string) (tail: "string list")

definition parse_path :: "string \<Rightarrow> path" where
  "parse_path s =
     (let r = (if \<not> startswith s ''/'' then []
               else if startswith s ''//'' \<and> \<not> startswith s ''///'' then ''//'' else ''/'')
      in Path r (filter (\<lambda>x. x \<noteq> [] \<and> x \<noteq> ''.'') (split_sep (lstrip_sep s))))"

text \<open>\<open>str(p)\<close>, which is also what \<open>os.fspath\<close> hands to \<open>os.path\<close>.\<close>

definition fspath :: "path \<Rightarrow> string" where
  "fspath p = (let s = root p @ join_sep (tail p) in if s = [] then ''.'' else s)"

text \<open>\<open>p.parts\<close>.\<close>

definition parts :: "path \<Rightarrow> string list" where
  "parts p = (if root p = [] then tail p else root p # tail p)"

text \<open>\<open>p.parent\<close>: a path without components is its own parent.\<close>

definition parent :: "path \<Rightarrow> path" where
  "parent p = (if tail p = [] then p else Path (root p) (butlast (tail p)))"

text \<open>\<open>p / s\<close> for a string \<open>s\<close>: an absolute right operand replaces the left one.\<close>

definition truediv :: "path \<Rightarrow> string \<Rightarrow> path" where
  "truediv p s = parse_path (join (fspath p) s)"

text \<open>
  \<open>p.relative_to(other)\<close>: the components of \<open>p\<close> below \<open>other\<close>; \<open>ValueError\<close> when
  \<open>p\<close> is not below \<open>other\<close>.
\<close>

definition relative_to :: "path \<Rightarrow> path \<Rightarrow> path_error + path" where
  "relative_to p other =
     (if prefix (parts other) (parts p)
      then Inr (Path [] (drop (length (parts other)) (parts p)))
      else Inl ValueError)"


section \<open>Configuration\<close>

definition WEB_DIR :: path where
  "WEB_DIR = parse_path ''/home/kennedy/ankaa/separating/web''"

definition SRC_DIR :: path where
  "SRC_DIR = truediv WEB_DIR ''src''"

definition PACKAGES :: "string list" where
  "PACKAGES = [''constants'', ''types'', ''utils'', ''schemas'', ''api-client'', ''hooks'']"


section \<open>The relative path calculator\<close>

text \<open>
  \<open>os.path.relpath\<close> depends on the host: the POSIX version above never raises for a
  non-empty path, the Windows version raises \<open>ValueError\<close> for paths on different drives.
  Both scripts catch that error, so the function is a parameter of the model: it takes
  the target and the start directory and returns the relative path or the error.
\<close>

type_synonym relpath_fn = "string \<Rightarrow> string \<Rightarrow> path_error + string"

text \<open>\<open>get_relative_path\<close> of \<open>replace-imports.py\<close>.\<close>

definition get_relative_path :: "relpath_fn \<Rightarrow> path \<Rightarrow> string \<Rightarrow> string" where
  "get_relative_path relpath file_path target_package =
     (let file_dir = parent file_path;
          target_dir = truediv SRC_DIR target_package
      in case relpath (fspath target_dir) (fspath file_dir) of
           Inr rel_path \<Rightarrow>
             (let rel_path' = replace_backslashes rel_path
              in if \<not> startswith rel_path' ''..'' then ''./'' @ rel_path' else rel_path')
         | Inl ValueError \<Rightarrow> target_package)"

text \<open>
  \<open>get_relative_path\<close> of \<open>replace-imports-deep.py\<close>; a call without \<open>sub_path\<close> passes
  the empty string.
\<close>

definition get_relative_path_deep :: "relpath_fn \<Rightarrow> path \<Rightarrow> string \<Rightarrow> string \<Rightarrow> string" where
  "get_relative_path_deep relpath file_path target_package sub_path =
     (let file_dir = parent file_path;
          target_dir = (if sub_path \<noteq> [] then truediv (truediv SRC_DIR target_package) sub_path
                        else truediv SRC_DIR target_package)
      in case relpath (fspath target_dir) (fspath file_dir) of
           Inr rel_path \<Rightarrow>
             (let rel_path' = replace_backslashes rel_path
              in if \<not> startswith rel_path' ''..'' then ''./'' @ rel_path' else rel_path')
         | Inl ValueError \<Rightarrow>
             (if sub_path \<noteq> [] then target_package @ ''/'' @ sub_path else target_package))"

text \<open>
  A host with drive letters, standing in for the Windows version of \<open>os.path.relpath\<close>,
  which is not transcribed.  It keeps what the scripts react to: paths on different
  drives are not comparable (\<open>ValueError\<close>), and the path returned is written with
  backslashes.  A path without a drive is on the drive of the working directory.
\<close>

definition drive_of :: "string \<Rightarrow> string" where
  "drive_of p = (case p of d # c # r \<Rightarrow> if c = CHR '':'' then [d] else [] | _ \<Rightarrow> [])"

definition without_drive :: "string \<Rightarrow> string" where
  "without_drive p = (if drive_of p = [] then p else drop 2 p)"

definition drive_relpath :: "string \<Rightarrow> string \<Rightarrow> string \<Rightarrow> string \<Rightarrow> path_error + string" where
  "drive_relpath cwd_drive cwd path start =
     (let path_drive = (if drive_of path = [] then cwd_drive else drive_of path);
          start_drive = (if drive_of start = [] then cwd_drive else drive_of start)
      in if path_drive \<noteq> start_drive then Inl ValueError
         else case posix_relpath cwd (without_drive path) (without_drive start) of
                Inl e \<Rightarrow> Inl e
              | Inr rel \<Rightarrow> Inr (map (\<lambda>c. if c = CHR ''/'' then backslash else c) rel))"


section \<open>The import patterns\<close>

text \<open>
  The two regular expressions, for a package \<open>pkg\<close>:
  \<^item> \<open>(from\s+['"])@ankaa/pkg(['"])\<close> in \<open>replace-imports.py\<close>;
  \<^item> \<open>(from\s+['"]|import\s*\(\s*['"])@ankaa/pkg(/[^'"]+)?(['"])\<close> in
    \<open>replace-imports-deep.py\<close>.

  They are matched as Python's backtracking matcher does.  A greedy run of white space
  is followed by a character that is not white space, and the greedy run \<open>[^'"]+\<close> by
  a quote, so giving back characters of a run never finds another match: each run is
  taken whole.  The two alternatives of the first group start with different letters.
  \<open>re.escape\<close> changes no package name into a pattern that matches anything but the name.
\<close>

text \<open>\<open>\s\<close> on the code points below 256.\<close>

definition is_space :: "char \<Rightarrow> bool" where
  "is_space c =
     (let n = (of_char c :: nat)
      in (9 \<le> n \<and> n \<le> 13) \<or> (28 \<le> n \<and> n \<le> 32) \<or> n = 133 \<or> n = 160)"

text \<open>The character class \<open>['"]\<close>.\<close>

definition is_quote :: "char \<Rightarrow> bool" where
  "is_quote c = (c = squote \<or> c = dquote)"

text \<open>A literal at the head of the text: the text behind it, when it is there.\<close>

fun match_lit :: "string \<Rightarrow> string \<Rightarrow> string option" where
  "match_lit [] s = Some s"
| "match_lit (p # ps) [] = None"
| "match_lit (p # ps) (c # cs) = (if p = c then match_lit ps cs else None)"

text \<open>
  A match: the whole matched text, the groups (the optional sub-path group of the deep
  pattern is \<open>None\<close> when it did not take part; the simple pattern has no such group),
  and the text behind the match.
\<close>

record re_match =
  group0 :: string
  prefix_group :: string
  sub_path_group :: "string option"
  suffix_group :: string
  rest :: string

text \<open>\<open>from\s+['"]\<close> at the head of the text: the matched text and the text behind it.\<close>

definition match_from :: "string \<Rightarrow> (string \<times> string) option" where
  "match_from s =
     (case match_lit ''from'' s of
        None \<Rightarrow> None
      | Some s1 \<Rightarrow>
          (let ws = takeWhile is_space s1
           in case dropWhile is_space s1 of
                [] \<Rightarrow> None
              | q # s2 \<Rightarrow>
                  if ws \<noteq> [] \<and> is_quote q then Some (''from'' @ ws @ [q], s2) else None))"

text \<open>\<open>import\s*\(\s*['"]\<close> at the head of the text.\<close>

definition match_import :: "string \<Rightarrow> (string \<times> string) option" where
  "match_import s =
     (case match_lit ''import'' s of
        None \<Rightarrow> None
      | Some s1 \<Rightarrow>
          (let ws1 = takeWhile is_space s1
           in case dropWhile is_space s1 of
                [] \<Rightarrow> None
              | p # s2 \<Rightarrow>
                  if p \<noteq> CHR ''('' then None
                  else
                    (let ws2 = takeWhile is_space s2
                     in case dropWhile is_space s2 of
                          [] \<Rightarrow> None
                        | q # s3 \<Rightarrow>
                            if is_quote q
                            then Some (''import'' @ ws1 @ ''('' @ ws2 @ [q], s3)
                            else None)))"

text \<open>The pattern of \<open>replace-imports.py\<close> at the head of the text.\<close>

definition match_simple :: "string \<Rightarrow> string \<Rightarrow> re_match option" where
  "match_simple package s =
     (case match_from s of
        None \<Rightarrow> None
      | Some (pre, s1) \<Rightarrow>
          (case match_lit (''@ankaa/'' @ package) s1 of
             None \<Rightarrow> None
           | Some s2 \<Rightarrow>
               (case s2 of
                  [] \<Rightarrow> None
                | q # s3 \<Rightarrow>
                    if is_quote q
                    then Some \<lparr>group0 = pre @ ''@ankaa/'' @ package @ [q], prefix_group = pre,
                               sub_path_group = None, suffix_group = [q], rest = s3\<rparr>
                    else None)))"

text \<open>
  The first group of the deep pattern: its first alternative, or else its second.
\<close>

definition match_from_or_import :: "string \<Rightarrow> (string \<times> string) option" where
  "match_from_or_import s = (case match_from s of None \<Rightarrow> match_import s | Some r \<Rightarrow> Some r)"

text \<open>
  The pattern of \<open>replace-imports-deep.py\<close> at the head of the text.  After the package
  name, a slash opens the optional group, which then needs at least one character that
  is no quote and a quote behind the run; without the group a quote must follow the
  name at once.
\<close>

definition match_deep :: "string \<Rightarrow> string \<Rightarrow> re_match option" where
  "match_deep package s =
     (case match_from_or_import s of
        None \<Rightarrow> None
      | Some (pre, s1) \<Rightarrow>
          (case match_lit (''@ankaa/'' @ package) s1 of
             None \<Rightarrow> None
           | Some s2 \<Rightarrow>
               (case s2 of
                  [] \<Rightarrow> None
                | c # s3 \<Rightarrow>
                    if c = CHR ''/'' then
                      (let sub = takeWhile (\<lambda>x. \<not> is_quote x) s3
                       in case dropWhile (\<lambda>x. \<not> is_quote x) s3 of
                            [] \<Rightarrow> None
                          | q # s4 \<Rightarrow>
                              if sub = [] then None
                              else Some \<lparr>group0 = pre @ ''@ankaa/'' @ package @ ''/'' @ sub @ [q],
                                         prefix_group = pre, sub_path_group = Some (''/'' @ sub),
                                         suffix_group = [q], rest = s4\<rparr>)
                    else if is_quote c
                    then Some \<lparr>group0 = pre @ ''@ankaa/'' @ package @ [c], prefix_group = pre,
                               sub_path_group = None, suffix_group = [c], rest = s3\<rparr>
                    else None)))"

text \<open>A match consumes at least one character: the scans below terminate.\<close>

lemma match_lit_Some: "match_lit p s = Some r \<Longrightarrow> s = p @ r"
  by (induction p s rule: match_lit.induct) (auto split: if_splits)

lemma match_from_Some:
  assumes "match_from s = Some (pre, r)"
  shows "s = pre @ r \<and> pre \<noteq> []"
proof -
  from assms obtain s1 where s1: "match_lit ''from'' s = Some s1"
    by (auto simp: match_from_def split: option.splits)
  from assms s1 obtain q s2 where d: "dropWhile is_space s1 = q # s2"
    and p: "pre = ''from'' @ takeWhile is_space s1 @ [q]" and r: "r = s2"
    by (auto simp: match_from_def Let_def split: list.splits if_splits)
  have "s1 = takeWhile is_space s1 @ dropWhile is_space s1" by simp
  with d have "s1 = takeWhile is_space s1 @ q # s2" by simp
  with match_lit_Some[OF s1] p r show ?thesis by simp
qed

lemma match_import_Some:
  assumes "match_import s = Some (pre, r)"
  shows "s = pre @ r \<and> pre \<noteq> []"
proof -
  from assms obtain s1 where s1: "match_lit ''import'' s = Some s1"
    by (auto simp: match_import_def split: option.splits)
  from assms s1 obtain s2 where d1: "dropWhile is_space s1 = CHR ''('' # s2"
    by (auto simp: match_import_def Let_def split: list.splits if_splits)
  from assms s1 d1 obtain q s3 where d2: "dropWhile is_space s2 = q # s3"
    and p: "pre = ''import'' @ takeWhile is_space s1 @ ''('' @ takeWhile is_space s2 @ [q]"
    and r: "r = s3"
    by (auto simp: match_import_def Let_def split: list.splits if_splits)
  have "s1 = takeWhile is_space s1 @ dropWhile is_space s1" by simp
  with d1 have e1: "s1 = takeWhile is_space s1 @ CHR ''('' # s2" by simp
  have "s2 = takeWhile is_space s2 @ dropWhile is_space s2" by simp
  with d2 have e2: "s2 = takeWhile is_space s2 @ q # s3" by simp
  have "s = ''import'' @ s1" using match_lit_Some[OF s1] .
  also have "s1 = takeWhile is_space s1 @ CHR ''('' # takeWhile is_space s2 @ q # s3"
    using e1 e2 by metis
  finally show ?thesis using p r by simp
qed

lemma match_simple_Some:
  assumes "match_simple package s = Some m"
  shows "s = group0 m @ rest m \<and> group0 m \<noteq> []"
proof -
  from assms obtain pre s1 where a: "match_from s = Some (pre, s1)"
    by (auto simp: match_simple_def split: option.splits)
  from assms a obtain s2 where b: "match_lit (''@ankaa/'' @ package) s1 = Some s2"
    by (auto simp: match_simple_def split: option.splits)
  from assms a b obtain q s3 where c: "s2 = q # s3"
    and m: "group0 m = pre @ ''@ankaa/'' @ package @ [q]" "rest m = s3"
    by (auto simp: match_simple_def split: list.splits if_splits)
  from match_from_Some[OF a] match_lit_Some[OF b] c m show ?thesis by simp
qed

lemma match_deep_Some:
  assumes "match_deep package s = Some m"
  shows "s = group0 m @ rest m \<and> group0 m \<noteq> []"
proof -
  from assms obtain pre s1 where a: "match_from_or_import s = Some (pre, s1)"
    by (auto simp: match_deep_def split: option.splits)
  then have a': "s = pre @ s1 \<and> pre \<noteq> []"
    by (auto simp: match_from_or_import_def split: option.splits
             dest: match_from_Some match_import_Some)
  from assms a obtain s2 where b: "match_lit (''@ankaa/'' @ package) s1 = Some s2"
    by (auto simp: match_deep_def split: option.splits)
  from assms a b obtain c s3 where c: "s2 = c # s3"
    by (auto simp: match_deep_def split: list.splits)
  have s: "s = pre @ ''@ankaa/'' @ package @ c # s3"
    using a' match_lit_Some[OF b] c by simp
  show ?thesis
  proof (cases "c = CHR ''/''")
    case True
    with assms a b c obtain q s4 where d: "dropWhile (\<lambda>x. \<not> is_quote x) s3 = q # s4"
      and m: "group0 m =
                pre @ ''@ankaa/'' @ package @ ''/'' @ takeWhile (\<lambda>x. \<not> is_quote x) s3 @ [q]"
         "rest m = s4"
      by (auto simp: match_deep_def Let_def split: list.splits if_splits)
    have "s3 = takeWhile (\<lambda>x. \<not> is_quote x) s3 @ dropWhile (\<lambda>x. \<not> is_quote x) s3" by simp
    with d have "s3 = takeWhile (\<lambda>x. \<not> is_quote x) s3 @ q # s4" by simp
    with s m True show ?thesis by simp
  next
    case False
    with assms a b c have "group0 m = pre @ ''@ankaa/'' @ package @ [c]" "rest m = s3"
      by (auto simp: match_deep_def Let_def split: list.splits if_splits)
    with s show ?thesis by simp
  qed
qed

lemma match_simple_shorter: "match_simple package s = Some m \<Longrightarrow> length (rest m) < length s"
  using match_simple_Some[of package s m] by (cases "group0 m") auto

lemma match_deep_shorter: "match_deep package s = Some m \<Longrightarrow> length (rest m) < length s"
  using match_deep_Some[of package s m] by (cases "group0 m") auto

text \<open>
  \<open>re.findall\<close> and \<open>re.finditer\<close>: the matches from left to right, each search starting
  behind the previous match.
\<close>

function findall_simple :: "string \<Rightarrow> string \<Rightarrow> re_match list" where
  "findall_simple package [] = []"
| "findall_simple package (c # cs) =
     (case match_simple package (c # cs) of
        Some m \<Rightarrow> m # findall_simple package (rest m)
      | None \<Rightarrow> findall_simple package cs)"
  by pat_completeness auto
termination
  by (relation "measure (\<lambda>(package, s). length s)") (auto dest: match_simple_shorter)

function finditer_deep :: "string \<Rightarrow> string \<Rightarrow> re_match list" where
  "finditer_deep package [] = []"
| "finditer_deep package (c # cs) =
     (case match_deep package (c # cs) of
        Some m \<Rightarrow> m # finditer_deep package (rest m)
      | None \<Rightarrow> finditer_deep package cs)"
  by pat_completeness auto
termination
  by (relation "measure (\<lambda>(package, s). length s)") (auto dest: match_deep_shorter)

text \<open>
  \<open>re.sub(pattern, r'\1' + rel_path + r'\2', content)\<close>: every match is replaced by its
  first group, the path and its last group.  The path is put into the template as it
  is; it holds no backslash and starts with no digit, so the template expands to
  exactly these three pieces.
\<close>

function sub_simple :: "string \<Rightarrow> string \<Rightarrow> string \<Rightarrow> string" where
  "sub_simple package rel_path [] = []"
| "sub_simple package rel_path (c # cs) =
     (case match_simple package (c # cs) of
        Some m \<Rightarrow> prefix_group m @ rel_path @ suffix_group m @ sub_simple package rel_path (rest m)
      | None \<Rightarrow> c # sub_simple package rel_path cs)"
  by pat_completeness auto
termination
  by (relation "measure (\<lambda>(package, rel_path, s). length s)") (auto dest: match_simple_shorter)


section \<open>The rewriters on a file's text\<close>

text \<open>
  The loop over \<open>PACKAGES\<close> of \<open>replace_imports_in_file\<close> (\<open>replace-imports.py\<close>), from
  the text read to the text that would be written, with \<open>total_replacements\<close>.
\<close>

definition simple_package_step ::
    "relpath_fn \<Rightarrow> path \<Rightarrow> string \<times> nat \<Rightarrow> string \<Rightarrow> string \<times> nat" where
  "simple_package_step relpath file_path acc package =
     (let content = fst acc; total_replacements = snd acc;
          matches = findall_simple package content
      in if matches = [] then (content, total_replacements)
         else
           let rel_path = get_relative_path relpath file_path package;
               new_content = sub_simple package rel_path content;
               replacements = length matches
           in if replacements > 0 then (new_content, total_replacements + replacements)
              else (content, total_replacements))"

definition replace_imports_content :: "relpath_fn \<Rightarrow> path \<Rightarrow> string \<Rightarrow> string \<times> nat" where
  "replace_imports_content relpath file_path content =
     foldl (simple_package_step relpath file_path) (content, 0) PACKAGES"

text \<open>
  The same loop of \<open>replace_deep_imports_in_file\<close> (\<open>replace-imports-deep.py\<close>).  The
  matches of a package are found first; then, match by match, the first occurrence of
  the matched text in the current content is replaced by \<open>new_text\<close>, which is built
  from the groups of the match.
\<close>

definition new_text_deep :: "relpath_fn \<Rightarrow> path \<Rightarrow> string \<Rightarrow> re_match \<Rightarrow> string" where
  "new_text_deep relpath file_path package m =
     (let prefix = prefix_group m;
          sub_path = (case sub_path_group m of
                        None \<Rightarrow> []
                      | Some sp \<Rightarrow> if sp \<noteq> [] then lstrip_sep sp else []);
          suffix = suffix_group m;
          rel_path = (if sub_path \<noteq> []
                      then get_relative_path_deep relpath file_path package sub_path
                      else get_relative_path_deep relpath file_path package [])
      in prefix @ rel_path @ suffix)"

definition deep_match_step ::
    "relpath_fn \<Rightarrow> path \<Rightarrow> string \<Rightarrow> string \<times> nat \<Rightarrow> re_match \<Rightarrow> string \<times> nat" where
  "deep_match_step relpath file_path package acc m =
     (let content = fst acc; total_replacements = snd acc;
          old_text = group0 m;
          new_text = new_text_deep relpath file_path package m
      in (replace_first old_text new_text content, total_replacements + 1))"

definition deep_package_step ::
    "relpath_fn \<Rightarrow> path \<Rightarrow> string \<times> nat \<Rightarrow> string \<Rightarrow> string \<times> nat" where
  "deep_package_step relpath file_path acc package =
     (let matches = finditer_deep package (fst acc)
      in if matches = [] then acc
         else foldl (deep_match_step relpath file_path package) acc matches)"

definition replace_deep_imports_content :: "relpath_fn \<Rightarrow> path \<Rightarrow> string \<Rightarrow> string \<times> nat" where
  "replace_deep_imports_content relpath file_path content =
     foldl (deep_package_step relpath file_path) (content, 0) PACKAGES"


section \<open>Files\<close>

text \<open>
  What the scripts see of the file system and what they do to it.  \<open>tree\<close> lists the
  paths of the directory tree in the order in which a walk meets them; \<open>text_of\<close> is
  the text that opening and reading a path yields (\<open>None\<close> when either raises);
  \<open>write_outcome\<close> says how writing a path back ends.  Opening a file for writing
  empties it, so a write that raises after the file was opened leaves a part of the new
  text behind, possibly nothing; only when \<open>open\<close> itself raises is the text as it was.
  \<open>opened\<close> records every \<open>open\<close> call and \<open>console\<close> every line printed, both in
  order.
\<close>

text \<open>
  \<open>Written\<close>: \<open>open\<close> and \<open>f.write\<close> succeed.  \<open>Open_raises\<close>: \<open>open(file_path, 'w')\<close>
  raises.  \<open>Write_raises n\<close>: the file is opened, and so emptied, and the write raises
  with the first \<open>n\<close> characters of the new text in the file.
\<close>

datatype write_outcome = Written | Open_raises | Write_raises nat

datatype open_mode = Reading | Writing

datatype message =
    Error_reading path
  | Error_writing path
  | Imports_replaced path nat
  | Source_directory_not_found path
  | Package_directory_not_found path
  | Files_processed nat
  | Files_modified nat
  | Total_replacements nat
  | Errors_encountered nat
  | Error_item string

record world =
  tree :: "path list"
  present :: "path \<Rightarrow> bool"
  regular :: "path \<Rightarrow> bool"
  text_of :: "path \<Rightarrow> string option"
  write_outcome :: "path \<Rightarrow> write_outcome"
  opened :: "(path \<times> open_mode) list"
  console :: "message list"

definition print :: "message \<Rightarrow> world \<Rightarrow> world" where
  "print msg w = w\<lparr>console := console w @ [msg]\<rparr>"

definition open_file :: "path \<Rightarrow> open_mode \<Rightarrow> world \<Rightarrow> world" where
  "open_file file_path mode w = w\<lparr>opened := opened w @ [(file_path, mode)]\<rparr>"

definition write_text :: "path \<Rightarrow> string \<Rightarrow> world \<Rightarrow> world" where
  "write_text file_path content w = w\<lparr>text_of := (text_of w)(file_path := Some content)\<rparr>"

text \<open>
  The part of \<open>replace_imports_in_file\<close> and \<open>replace_deep_imports_in_file\<close> around
  the loop, which is the same in both scripts: read, rewrite, write back if the text
  changed.  \<open>rewrite\<close> is the loop.
\<close>

definition rewrite_file ::
    "(path \<Rightarrow> string \<Rightarrow> string \<times> nat) \<Rightarrow> path \<Rightarrow> world \<Rightarrow> (bool \<times> nat) \<times> world" where
  "rewrite_file rewrite file_path w =
     (let w1 = open_file file_path Reading w
      in case text_of w file_path of
           None \<Rightarrow> ((False, 0), print (Error_reading file_path) w1)
         | Some original_content \<Rightarrow>
             (let (content, total_replacements) = rewrite file_path original_content
              in if content \<noteq> original_content then
                   (let w2 = open_file file_path Writing w1
                    in case write_outcome w file_path of
                         Written \<Rightarrow>
                           ((True, total_replacements), write_text file_path content w2)
                       | Open_raises \<Rightarrow> ((False, 0), print (Error_writing file_path) w2)
                       | Write_raises n \<Rightarrow>
                           ((False, 0), print (Error_writing file_path)
                                          (write_text file_path (take n content) w2)))
                 else ((False, 0), w1)))"

definition replace_imports_in_file ::
    "relpath_fn \<Rightarrow> path \<Rightarrow> world \<Rightarrow> (bool \<times> nat) \<times> world" where
  "replace_imports_in_file relpath = rewrite_file (replace_imports_content relpath)"

definition replace_deep_imports_in_file ::
    "relpath_fn \<Rightarrow> path \<Rightarrow> world \<Rightarrow> (bool \<times> nat) \<times> world" where
  "replace_deep_imports_in_file relpath = rewrite_file (replace_deep_imports_content relpath)"


section \<open>The directory walker\<close>

record stats =
  files_processed :: nat
  files_modified :: nat
  total_replacements :: nat
  errors :: "string list"

text \<open>\<open>needle in s\<close> for strings.\<close>

fun contains :: "string \<Rightarrow> string \<Rightarrow> bool" where
  "contains [] needle = (needle = [])"
| "contains (c # cs) needle = (startswith (c # cs) needle \<or> contains cs needle)"

text \<open>
  \<open>directory.rglob("*.ts*")\<close>: the paths of the tree strictly below \<open>directory\<close> whose
  last component matches the pattern, that is, holds \<open>.ts\<close> somewhere.  Directories
  with such a name are among them.
\<close>

definition rglob :: "world \<Rightarrow> path \<Rightarrow> path list" where
  "rglob w directory =
     filter (\<lambda>p. strict_prefix (parts directory) (parts p) \<and> tail p \<noteq> []
                 \<and> contains (last (tail p)) ''.ts'') (tree w)"

text \<open>
  The loop of \<open>process_directory\<close> over the paths found, for either script's rewriter.
  \<open>relative_to\<close> raises for a modified file that is not below \<open>WEB_DIR\<close>; the error ends
  the walk, and what was done to the files before stays done.
\<close>

fun process_paths ::
    "(path \<Rightarrow> world \<Rightarrow> (bool \<times> nat) \<times> world) \<Rightarrow> path list \<Rightarrow> stats \<Rightarrow> world
       \<Rightarrow> (path_error + stats) \<times> world" where
  "process_paths rewriter [] st w = (Inr st, w)"
| "process_paths rewriter (file_path # file_paths) st w =
     (if ''node_modules'' \<in> set (parts file_path) \<or> ''.git'' \<in> set (parts file_path)
      then process_paths rewriter file_paths st w
      else if \<not> regular w file_path then process_paths rewriter file_paths st w
      else
        (let st1 = st\<lparr>files_processed := files_processed st + 1\<rparr>;
             ((modified, count), w1) = rewriter file_path w
         in if modified then
              (let st2 = st1\<lparr>files_modified := files_modified st1 + 1,
                             total_replacements := total_replacements st1 + count\<rparr>
               in case relative_to file_path WEB_DIR of
                    Inl e \<Rightarrow> (Inl e, w1)
                  | Inr rel_file \<Rightarrow>
                      process_paths rewriter file_paths st2
                        (print (Imports_replaced rel_file count) w1))
            else process_paths rewriter file_paths st1 w1))"

definition initial_stats :: stats where
  "initial_stats = \<lparr>files_processed = 0, files_modified = 0, total_replacements = 0, errors = []\<rparr>"

definition process_directory :: "relpath_fn \<Rightarrow> path \<Rightarrow> world \<Rightarrow> (path_error + stats) \<times> world" where
  "process_directory relpath directory w =
     process_paths (replace_imports_in_file relpath) (rglob w directory) initial_stats w"

definition process_directory_deep ::
    "relpath_fn \<Rightarrow> path \<Rightarrow> world \<Rightarrow> (path_error + stats) \<times> world" where
  "process_directory_deep relpath directory w =
     process_paths (replace_deep_imports_in_file relpath) (rglob w directory) initial_stats w"

text \<open>
  The summary that \<open>main\<close> prints from the statistics (the banner lines are left out):
  the three counts and, when the error list is not empty, its length and its first ten
  entries.
\<close>

definition print_summary :: "stats \<Rightarrow> world \<Rightarrow> world" where
  "print_summary st w =
     (let w1 = print (Total_replacements (total_replacements st))
                 (print (Files_modified (files_modified st))
                   (print (Files_processed (files_processed st)) w))
      in if errors st \<noteq> []
         then foldl (\<lambda>w' error. print (Error_item error) w')
                (print (Errors_encountered (length (errors st))) w1) (take 10 (errors st))
         else w1)"

text \<open>
  \<open>main\<close> of \<open>replace-imports.py\<close>: a missing source directory ends the run before the
  walk; a missing package directory is only reported.
\<close>

definition main :: "relpath_fn \<Rightarrow> world \<Rightarrow> (path_error + unit) \<times> world" where
  "main relpath w =
     (if \<not> present w SRC_DIR then (Inr (), print (Source_directory_not_found SRC_DIR) w)
      else
        (let w1 = foldl (\<lambda>w' package.
                          let pkg_dir = truediv SRC_DIR package
                          in if \<not> present w' pkg_dir
                             then print (Package_directory_not_found pkg_dir) w' else w')
                    w PACKAGES
         in case process_directory relpath SRC_DIR w1 of
              (Inl e, w2) \<Rightarrow> (Inl e, w2)
            | (Inr st, w2) \<Rightarrow> (Inr (), print_summary st w2)))"

text \<open>\<open>main\<close> of \<open>replace-imports-deep.py\<close>, which does not look for the package directories.\<close>

definition main_deep :: "relpath_fn \<Rightarrow> world \<Rightarrow> (path_error + unit) \<times> world" where
  "main_deep relpath w =
     (if \<not> present w SRC_DIR then (Inr (), print (Source_directory_not_found SRC_DIR) w)
      else
        (case process_directory_deep relpath SRC_DIR w of
           (Inl e, w2) \<Rightarrow> (Inl e, w2)
         | (Inr st, w2) \<Rightarrow> (Inr (), print_summary st w2)))"


section \<open>What the patterns match\<close>

text \<open>
  The matchers are characterised by the texts they accept: a text of the right shape is
  matched, whatever follows it, and a match has that shape.
\<close>

lemma list_all_takeWhile: "list_all P (takeWhile P xs)"
  by (induction xs) simp_all

lemma quote_not_space: "is_quote c \<Longrightarrow> \<not> is_space c"
  by (auto simp: is_quote_def is_space_def)

lemma paren_not_space: "\<not> is_space (CHR ''('')"
  by (simp add: is_space_def)

lemma match_lit_append: "match_lit p (p @ r) = Some r"
  by (induction p) simp_all

lemma takeWhile_spaces:
  "list_all is_space ws \<Longrightarrow> \<not> is_space c \<Longrightarrow> takeWhile is_space (ws @ c # r) = ws"
  by (induction ws) simp_all

lemma dropWhile_spaces:
  "list_all is_space ws \<Longrightarrow> \<not> is_space c \<Longrightarrow> dropWhile is_space (ws @ c # r) = c # r"
  by (induction ws) simp_all

lemma match_from_intro:
  assumes "ws \<noteq> []" "list_all is_space ws" "is_quote q"
  shows "match_from (''from'' @ ws @ q # r) = Some (''from'' @ ws @ [q], r)"
proof -
  have "match_lit ''from'' (''from'' @ ws @ q # r) = Some (ws @ q # r)"
    by (rule match_lit_append)
  then show ?thesis
    using assms
    by (simp add: match_from_def takeWhile_spaces dropWhile_spaces quote_not_space
        del: match_lit.simps)
qed

lemma match_import_intro:
  assumes "list_all is_space ws1" "list_all is_space ws2" "is_quote q"
  shows "match_import (''import'' @ ws1 @ ''('' @ ws2 @ q # r)
           = Some (''import'' @ ws1 @ ''('' @ ws2 @ [q], r)"
proof -
  have "match_lit ''import'' (''import'' @ ws1 @ ''('' @ ws2 @ q # r)
          = Some (ws1 @ CHR ''('' # ws2 @ q # r)"
    using match_lit_append [of "''import''" "ws1 @ ''('' @ ws2 @ q # r"] by simp
  then show ?thesis
    using assms
    by (simp add: match_import_def takeWhile_spaces dropWhile_spaces quote_not_space
        paren_not_space del: match_lit.simps)
qed

lemma match_from_import: "match_from (''import'' @ r) = None"
  by (simp add: match_from_def)

text \<open>The shapes of the first group, the other way round.\<close>

lemma match_from_shape:
  assumes "match_from s = Some (pre, r)"
  obtains ws q where "pre = ''from'' @ ws @ [q]" "ws \<noteq> []" "list_all is_space ws" "is_quote q"
proof -
  from assms obtain s1 where s1: "match_lit ''from'' s = Some s1"
    by (auto simp: match_from_def split: option.splits)
  from assms s1 obtain q s2 where d: "dropWhile is_space s1 = q # s2"
    and p: "pre = ''from'' @ takeWhile is_space s1 @ [q]"
    and w: "takeWhile is_space s1 \<noteq> []" and q: "is_quote q"
    by (auto simp: match_from_def Let_def split: list.splits if_splits)
  have "list_all is_space (takeWhile is_space s1)"
    by (rule list_all_takeWhile)
  with p w q show ?thesis using that by blast
qed

lemma match_import_shape:
  assumes "match_import s = Some (pre, r)"
  obtains ws1 ws2 q where "pre = ''import'' @ ws1 @ ''('' @ ws2 @ [q]"
    "list_all is_space ws1" "list_all is_space ws2" "is_quote q"
proof -
  from assms obtain s1 where s1: "match_lit ''import'' s = Some s1"
    by (auto simp: match_import_def split: option.splits)
  from assms s1 obtain s2 where d1: "dropWhile is_space s1 = CHR ''('' # s2"
    by (auto simp: match_import_def Let_def split: list.splits if_splits)
  from assms s1 d1 obtain q s3 where d2: "dropWhile is_space s2 = q # s3"
    and p: "pre = ''import'' @ takeWhile is_space s1 @ ''('' @ takeWhile is_space s2 @ [q]"
    and q: "is_quote q"
    by (auto simp: match_import_def Let_def split: list.splits if_splits)
  have "list_all is_space (takeWhile is_space s1)" "list_all is_space (takeWhile is_space s2)"
    by (rule list_all_takeWhile)+
  with p q show ?thesis using that by blast
qed


lemma first_group_shape:
  assumes "match_from_or_import s = Some (pre, r)"
  obtains (static) ws q where "pre = ''from'' @ ws @ [q]" "ws \<noteq> []" "list_all is_space ws"
      "is_quote q"
  | (dynamic) ws1 ws2 q where "pre = ''import'' @ ws1 @ ''('' @ ws2 @ [q]"
      "list_all is_space ws1" "list_all is_space ws2" "is_quote q"
proof (cases "match_from s")
  case None
  with assms have "match_import s = Some (pre, r)"
    by (simp add: match_from_or_import_def)
  then show ?thesis by (rule match_import_shape) (rule dynamic)
next
  case (Some a)
  with assms have "match_from s = Some (pre, r)"
    by (simp add: match_from_or_import_def)
  then show ?thesis by (rule match_from_shape) (rule static)
qed

lemma first_group_static:
  "ws \<noteq> [] \<Longrightarrow> list_all is_space ws \<Longrightarrow> is_quote q
     \<Longrightarrow> match_from_or_import (''from'' @ ws @ q # r) = Some (''from'' @ ws @ [q], r)"
  using match_from_intro [of ws q r] by (simp add: match_from_or_import_def)

lemma first_group_dynamic:
  "list_all is_space ws1 \<Longrightarrow> list_all is_space ws2 \<Longrightarrow> is_quote q
     \<Longrightarrow> match_from_or_import (''import'' @ ws1 @ ''('' @ ws2 @ q # r)
           = Some (''import'' @ ws1 @ ''('' @ ws2 @ [q], r)"
  using match_from_import [of "ws1 @ ''('' @ ws2 @ q # r"] match_import_intro [of ws1 ws2 q r]
  by (simp add: match_from_or_import_def)

lemma first_group_stable:
  assumes "match_from_or_import s = Some (pre, r)"
  shows "match_from_or_import (pre @ r') = Some (pre, r')"
  using assms
proof (cases rule: first_group_shape)
  case (static ws q)
  then show ?thesis using first_group_static [of ws q r'] by simp
next
  case (dynamic ws1 ws2 q)
  then show ?thesis using first_group_dynamic [of ws1 ws2 q r'] by simp
qed

lemma match_from_stable:
  assumes "match_from s = Some (pre, r)"
  shows "match_from (pre @ r') = Some (pre, r')"
  using assms
proof (rule match_from_shape)
  fix ws q
  assume "pre = ''from'' @ ws @ [q]" "ws \<noteq> []" "list_all is_space ws" "is_quote q"
  then show ?thesis using match_from_intro [of ws q r'] by simp
qed


lemma takeWhile_no_quote:
  "list_all (\<lambda>c. \<not> is_quote c) sub \<Longrightarrow> is_quote q
     \<Longrightarrow> takeWhile (\<lambda>x. \<not> is_quote x) (sub @ q # r) = sub"
  by (induction sub) simp_all

lemma dropWhile_no_quote:
  "list_all (\<lambda>c. \<not> is_quote c) sub \<Longrightarrow> is_quote q
     \<Longrightarrow> dropWhile (\<lambda>x. \<not> is_quote x) (sub @ q # r) = q # r"
  by (induction sub) simp_all

lemma slash_no_quote: "\<not> is_quote (CHR ''/'')"
  by (simp add: is_quote_def)

lemma match_simple_intro:
  assumes "match_from s0 = Some (pre, r0)" "is_quote q"
  shows "match_simple package (pre @ ''@ankaa/'' @ package @ q # r)
           = Some \<lparr>group0 = pre @ ''@ankaa/'' @ package @ [q], prefix_group = pre,
                    sub_path_group = None, suffix_group = [q], rest = r\<rparr>"
proof -
  have a: "match_from (pre @ ''@ankaa/'' @ package @ q # r)
             = Some (pre, ''@ankaa/'' @ package @ q # r)"
    using assms(1) by (rule match_from_stable)
  have b: "match_lit (''@ankaa/'' @ package) (''@ankaa/'' @ package @ q # r) = Some (q # r)"
    using match_lit_append [of "''@ankaa/'' @ package" "q # r"] by simp
  show ?thesis
    unfolding match_simple_def a using b assms(2) by simp
qed

lemma match_simple_shape:
  assumes "match_simple package s = Some m"
  obtains pre r0 q r where "match_from s = Some (pre, r0)" "is_quote q"
    "m = \<lparr>group0 = pre @ ''@ankaa/'' @ package @ [q], prefix_group = pre,
           sub_path_group = None, suffix_group = [q], rest = r\<rparr>"
proof -
  from assms obtain pre s1 where a: "match_from s = Some (pre, s1)"
    by (auto simp: match_simple_def split: option.splits)
  from assms a obtain s2 where b: "match_lit (''@ankaa/'' @ package) s1 = Some s2"
    by (auto simp: match_simple_def split: option.splits)
  from assms a b obtain q s3 where c: "s2 = q # s3" and q: "is_quote q"
    and m: "m = \<lparr>group0 = pre @ ''@ankaa/'' @ package @ [q], prefix_group = pre,
                  sub_path_group = None, suffix_group = [q], rest = s3\<rparr>"
    by (auto simp: match_simple_def split: list.splits if_splits)
  from a q m show ?thesis by (rule that)
qed

lemma match_simple_stable:
  assumes "match_simple package s = Some m"
  shows "match_simple package (group0 m @ r) = Some (m\<lparr>rest := r\<rparr>)"
  using assms
proof (rule match_simple_shape)
  fix pre r0 q r1
  assume a: "match_from s = Some (pre, r0)" and q: "is_quote q"
    and m: "m = \<lparr>group0 = pre @ ''@ankaa/'' @ package @ [q],
                  prefix_group = pre, sub_path_group = None, suffix_group = [q],
                  rest = r1\<rparr>"
  show ?thesis
    using match_simple_intro [OF a q, of package r] by (simp add: m)
qed

lemma match_deep_sub_intro:
  assumes "match_from_or_import s0 = Some (pre, r0)" "sub \<noteq> []"
    "list_all (\<lambda>c. \<not> is_quote c) sub" "is_quote q"
  shows "match_deep package (pre @ ''@ankaa/'' @ package @ ''/'' @ sub @ q # r)
           = Some \<lparr>group0 = pre @ ''@ankaa/'' @ package @ ''/'' @ sub @ [q], prefix_group = pre,
                    sub_path_group = Some (''/'' @ sub), suffix_group = [q], rest = r\<rparr>"
proof -
  have a: "match_from_or_import (pre @ ''@ankaa/'' @ package @ ''/'' @ sub @ q # r)
             = Some (pre, ''@ankaa/'' @ package @ ''/'' @ sub @ q # r)"
    using assms(1) by (rule first_group_stable)
  have b: "match_lit (''@ankaa/'' @ package) (''@ankaa/'' @ package @ ''/'' @ sub @ q # r)
             = Some (CHR ''/'' # sub @ q # r)"
    using match_lit_append [of "''@ankaa/'' @ package" "''/'' @ sub @ q # r"] by simp
  show ?thesis
    unfolding match_deep_def a using b assms(2-4)
    by (simp add: takeWhile_no_quote dropWhile_no_quote)
qed

lemma match_deep_plain_intro:
  assumes "match_from_or_import s0 = Some (pre, r0)" "is_quote q"
  shows "match_deep package (pre @ ''@ankaa/'' @ package @ q # r)
           = Some \<lparr>group0 = pre @ ''@ankaa/'' @ package @ [q], prefix_group = pre,
                    sub_path_group = None, suffix_group = [q], rest = r\<rparr>"
proof -
  have a: "match_from_or_import (pre @ ''@ankaa/'' @ package @ q # r)
             = Some (pre, ''@ankaa/'' @ package @ q # r)"
    using assms(1) by (rule first_group_stable)
  have b: "match_lit (''@ankaa/'' @ package) (''@ankaa/'' @ package @ q # r) = Some (q # r)"
    using match_lit_append [of "''@ankaa/'' @ package" "q # r"] by simp
  have "q \<noteq> CHR ''/''" using assms(2) slash_no_quote by auto
  then show ?thesis
    unfolding match_deep_def a using b assms(2) by simp
qed

lemma match_deep_shape:
  assumes "match_deep package s = Some m"
  obtains (deep) pre r0 sub q r where "match_from_or_import s = Some (pre, r0)"
      "sub \<noteq> []" "list_all (\<lambda>c. \<not> is_quote c) sub" "is_quote q"
      "m = \<lparr>group0 = pre @ ''@ankaa/'' @ package @ ''/'' @ sub @ [q],
             prefix_group = pre, sub_path_group = Some (''/'' @ sub),
             suffix_group = [q], rest = r\<rparr>"
  | (plain) pre r0 q r where "match_from_or_import s = Some (pre, r0)" "is_quote q"
      "m = \<lparr>group0 = pre @ ''@ankaa/'' @ package @ [q],
             prefix_group = pre, sub_path_group = None,
             suffix_group = [q], rest = r\<rparr>"
proof -
  from assms obtain pre s1 where a: "match_from_or_import s = Some (pre, s1)"
    by (auto simp: match_deep_def split: option.splits)
  from assms a obtain s2 where b: "match_lit (''@ankaa/'' @ package) s1 = Some s2"
    by (auto simp: match_deep_def split: option.splits)
  from assms a b obtain c s3 where c: "s2 = c # s3"
    by (auto simp: match_deep_def split: list.splits)
  show ?thesis
  proof (cases "c = CHR ''/''")
    case True
    with assms a b c obtain q s4 where d: "dropWhile (\<lambda>x. \<not> is_quote x) s3 = q # s4"
      and ne: "takeWhile (\<lambda>x. \<not> is_quote x) s3 \<noteq> []"
      and m: "m = \<lparr>group0 = pre @ ''@ankaa/'' @ package @ ''/''
                        @ takeWhile (\<lambda>x. \<not> is_quote x) s3 @ [q],
                    prefix_group = pre,
                    sub_path_group = Some (''/'' @ takeWhile (\<lambda>x. \<not> is_quote x) s3),
                    suffix_group = [q], rest = s4\<rparr>"
      by (auto simp: match_deep_def Let_def split: list.splits if_splits)
    have nq: "list_all (\<lambda>c. \<not> is_quote c) (takeWhile (\<lambda>x. \<not> is_quote x) s3)"
      by (rule list_all_takeWhile)
    have "\<not> \<not> is_quote (hd (dropWhile (\<lambda>x. \<not> is_quote x) s3))"
      by (rule hd_dropWhile) (simp add: d)
    then have q: "is_quote q" by (simp add: d)
    from a ne nq q m show ?thesis by (rule deep)
  next
    case False
    with assms a b c have q: "is_quote c"
      and m: "m = \<lparr>group0 = pre @ ''@ankaa/'' @ package @ [c], prefix_group = pre,
                    sub_path_group = None, suffix_group = [c], rest = s3\<rparr>"
      by (auto simp: match_deep_def Let_def split: list.splits if_splits)
    from a q m show ?thesis by (rule plain)
  qed
qed

lemma match_deep_stable:
  assumes "match_deep package s = Some m"
  shows "match_deep package (group0 m @ r) = Some (m\<lparr>rest := r\<rparr>)"
  using assms
proof (cases rule: match_deep_shape)
  case (deep pre r0 sub q r1)
  show ?thesis
    using match_deep_sub_intro [OF deep(1-4), of package r] by (simp add: deep(5))
next
  case (plain pre r0 q r1)
  show ?thesis
    using match_deep_plain_intro [OF plain(1,2), of package r] by (simp add: plain(3))
qed


lemma startswith_append: "startswith (p @ r) p"
  by (induction p) simp_all

lemma replace_first_head: "old \<noteq> [] \<Longrightarrow> replace_first old new (old @ r) = new @ r"
  by (cases old) (simp_all add: startswith_append)

lemma deep_match_step_head:
  assumes "match_deep package s = Some m"
  shows "deep_match_step relpath file_path package (s, n) m
           = (new_text_deep relpath file_path package m @ rest m, n + 1)"
proof -
  from match_deep_Some [OF assms] have "s = group0 m @ rest m" "group0 m \<noteq> []" by simp_all
  then show ?thesis
    using replace_first_head [of "group0 m" "new_text_deep relpath file_path package m" "rest m"]
    by (simp add: deep_match_step_def Let_def)
qed

lemma lstrip_sep_no_quote:
  "list_all (\<lambda>c. \<not> is_quote c) sub \<Longrightarrow> list_all (\<lambda>c. \<not> is_quote c) (lstrip_sep sub)"
  unfolding lstrip_sep_def by (induction sub) simp_all


section \<open>The scenario of the specification\<close>

definition button_ts :: path where
  "button_ts = truediv SRC_DIR ''components/widgets/Button.ts''"

text \<open>
  Claim C1.  For the file \<open>src/components/widgets/Button.ts\<close>, two directories below
  the source root, the deep rewriter turns the import of sub-path \<open>user\<close> of package
  \<open>types\<close> into \<open>../../types/user\<close>.  The path computed has as many parent-directory
  markers as the file's directory lies below the source root (two), ends with
  \<open>/user\<close> and holds no backslash.  On a POSIX host this is so for every working
  directory.
\<close>

theorem button_deep_import:
  \<open>replace_deep_imports_content (posix_relpath cwd) button_ts
       ''import { x } from "@ankaa/types/user"''
     = (''import { x } from "../../types/user"'', 1)
   \<and> get_relative_path_deep (posix_relpath cwd) button_ts ''types'' ''user'' = ''../../types/user''
   \<and> length (filter (\<lambda>c. c = ''..'')
         (split_sep (get_relative_path_deep (posix_relpath cwd) button_ts ''types'' ''user'')))
       = length (tail (parent button_ts)) - length (tail SRC_DIR)
   \<and> length (tail (parent button_ts)) - length (tail SRC_DIR) = 2
   \<and> suffix ''/user'' (get_relative_path_deep (posix_relpath cwd) button_ts ''types'' ''user'')
   \<and> backslash \<notin> set (get_relative_path_deep (posix_relpath cwd) button_ts ''types'' ''user'')\<close>
proof -
  have rel: "get_relative_path_deep (posix_relpath cwd) button_ts ''types'' ''user''
             = ''../../types/user''"
    by (simp add: get_relative_path_deep_def posix_relpath_def button_ts_def SRC_DIR_def
        WEB_DIR_def truediv_def parse_path_def join_def fspath_def parent_def lstrip_sep_def
        abspath_def isabs_def normpath_def tail_list_def replace_backslashes_def Let_def)
  have dir: "length (tail (parent button_ts)) - length (tail SRC_DIR) = 2"
    by (simp add: button_ts_def SRC_DIR_def WEB_DIR_def truediv_def parse_path_def join_def
        fspath_def parent_def lstrip_sep_def)
  have rewritten: \<open>replace_deep_imports_content (posix_relpath cwd) button_ts
       ''import { x } from "@ankaa/types/user"''
     = (''import { x } from "../../types/user"'', 1)\<close>
    by (simp add: replace_deep_imports_content_def PACKAGES_def deep_package_step_def
        deep_match_step_def new_text_deep_def match_deep_def match_from_or_import_def
        match_from_def
        match_import_def is_space_def
        is_quote_def lstrip_sep_def rel Let_def)
  show ?thesis
    unfolding rel using rewritten dir by (simp add: suffix_def)
qed


section \<open>Properties of the relative path calculator\<close>

definition other_drive_ts :: path where
  "other_drive_ts = parse_path ''D:/proj/a.ts''"

text \<open>
  Claim C8.  When \<open>os.path.relpath\<close> raises \<open>ValueError\<close> for the target and the file's
  directory, \<open>get_relative_path\<close> does not fail: the script without sub-paths returns the
  package name, and the deep script returns the package name, followed by a slash and
  the sub-path when a sub-path is given.
\<close>

theorem fallback_on_ValueError:
  "(relpath (fspath (truediv SRC_DIR pkg)) (fspath (parent file_path)) = Inl ValueError
      \<longrightarrow> get_relative_path relpath file_path pkg = pkg
        \<and> get_relative_path_deep relpath file_path pkg [] = pkg)
   \<and> (sub_path \<noteq> []
        \<and> relpath (fspath (truediv (truediv SRC_DIR pkg) sub_path)) (fspath (parent file_path))
            = Inl ValueError
      \<longrightarrow> get_relative_path_deep relpath file_path pkg sub_path = pkg @ ''/'' @ sub_path)"
  by (simp add: get_relative_path_def get_relative_path_deep_def)

theorem fallback_on_ValueError_witness:
  "drive_relpath ''C'' ''/work'' (fspath (truediv SRC_DIR ''types'')) (fspath (parent other_drive_ts))
     = Inl ValueError
   \<and> ''user'' \<noteq> []
   \<and> drive_relpath ''C'' ''/work'' (fspath (truediv (truediv SRC_DIR ''types'') ''user''))
        (fspath (parent other_drive_ts)) = Inl ValueError
   \<and> get_relative_path (drive_relpath ''C'' ''/work'') other_drive_ts ''types'' = ''types''
   \<and> get_relative_path_deep (drive_relpath ''C'' ''/work'') other_drive_ts ''types'' [] = ''types''
   \<and> get_relative_path_deep (drive_relpath ''C'' ''/work'') other_drive_ts ''types'' ''user''
       = ''types/user''"
proof -
  have a: "drive_relpath ''C'' ''/work'' (fspath (truediv SRC_DIR ''types''))
             (fspath (parent other_drive_ts)) = Inl ValueError"
    by (simp add: drive_relpath_def drive_of_def other_drive_ts_def SRC_DIR_def WEB_DIR_def
        truediv_def parse_path_def join_def fspath_def parent_def lstrip_sep_def)
  have b: "drive_relpath ''C'' ''/work'' (fspath (truediv (truediv SRC_DIR ''types'') ''user''))
        (fspath (parent other_drive_ts)) = Inl ValueError"
    by (simp add: drive_relpath_def drive_of_def other_drive_ts_def SRC_DIR_def WEB_DIR_def
        truediv_def parse_path_def join_def fspath_def parent_def lstrip_sep_def)
  show ?thesis
    using a b
      fallback_on_ValueError [of "drive_relpath ''C'' ''/work''" "''types''" other_drive_ts "''user''"]
    by simp
qed

text \<open>
  A path begins with a parent-directory marker when its first component is \<open>..\<close>.  It
  is an explicit relative import when it holds no backslash and begins with a
  parent-directory marker or with \<open>./\<close>.
\<close>

definition parent_marked :: "string \<Rightarrow> bool" where
  "parent_marked s = (s = ''..'' \<or> startswith s ''../'')"

definition explicit_relative :: "string \<Rightarrow> bool" where
  "explicit_relative s = (backslash \<notin> set s \<and> (parent_marked s \<or> startswith s ''./''))"

lemma replace_backslashes_none: "backslash \<notin> set (replace_backslashes r)"
  by (auto simp: replace_backslashes_def)

lemma replace_backslashes_id: "backslash \<notin> set r \<Longrightarrow> replace_backslashes r = r"
  by (induction r) (auto simp: replace_backslashes_def)

lemma parent_marked_startswith: "parent_marked s \<Longrightarrow> startswith s ''..''"
  by (cases s; cases "tl s") (auto simp: parent_marked_def)

lemma explicit_relative_prefixed: "explicit_relative (''./'' @ replace_backslashes r)"
  by (simp add: explicit_relative_def replace_backslashes_none)

lemma explicit_relative_parent:
  "parent_marked (replace_backslashes r) \<Longrightarrow> explicit_relative (replace_backslashes r)"
  by (simp add: explicit_relative_def replace_backslashes_none)

definition a_ts :: path where
  "a_ts = truediv SRC_DIR ''a.ts''"

definition index_ts :: path where
  "index_ts = truediv SRC_DIR ''types/index.ts''"

lemma fspath_nonempty: "fspath p \<noteq> []"
  by (simp add: fspath_def Let_def)

lemma posix_relpath_returns: "path \<noteq> [] \<Longrightarrow> \<exists>r. posix_relpath cwd path start = Inr r"
  by (simp add: posix_relpath_def Let_def)

lemma join_sep_chars: "set (join_sep xs) \<subseteq> (\<Union>x \<in> set xs. set x) \<union> {CHR ''/''}"
  by (induction xs rule: join_sep.induct) auto

lemma join_sep_hd: "xs \<noteq> [] \<Longrightarrow> join_sep xs = hd xs \<or> (\<exists>t. join_sep xs = hd xs @ ''/'' @ t)"
  by (cases xs rule: join_sep.cases) simp_all

lemma package_target_list:
  assumes "p \<in> set PACKAGES"
  shows "tail_list (abspath cwd (fspath (truediv SRC_DIR p)))
           = [''home'', ''kennedy'', ''ankaa'', ''separating'', ''web'', ''src'', p]"
proof -
  from assms have "p = ''constants'' \<or> p = ''types'' \<or> p = ''utils''
      \<or> p = ''schemas'' \<or> p = ''api-client'' \<or> p = ''hooks''"
    unfolding PACKAGES_def by simp
  then show ?thesis
    by (elim disjE)
      (simp_all add: SRC_DIR_def WEB_DIR_def truediv_def parse_path_def join_def
        fspath_def lstrip_sep_def abspath_def isabs_def normpath_def tail_list_def Let_def)
qed

text \<open>A component that is neither empty nor begins with a dot, and holds no backslash.\<close>

definition plain_component :: "string \<Rightarrow> bool" where
  "plain_component x = (x \<noteq> [] \<and> hd x \<noteq> CHR ''.'' \<and> backslash \<notin> set x)"

lemma package_target_plain:
  assumes "p \<in> set PACKAGES"
  shows "list_all plain_component (tail_list (abspath cwd (fspath (truediv SRC_DIR p))))"
proof -
  from assms have "plain_component p"
    by (auto simp: PACKAGES_def plain_component_def)
  then show ?thesis
    by (simp add: package_target_list [OF assms] plain_component_def)
qed

lemma posix_relpath_shape:
  assumes "list_all plain_component (tail_list (abspath cwd path))"
    and "posix_relpath cwd path start = Inr r"
  shows "backslash \<notin> set r \<and> (parent_marked r \<or> \<not> startswith r ''..'')"
proof -
  define start_list where "start_list = tail_list (abspath cwd start)"
  define path_list where "path_list = tail_list (abspath cwd path)"
  define i where "i = commonprefix_len start_list path_list"
  define k where "k = length start_list - i"
  define rel_list where "rel_list = replicate k ''..'' @ drop i path_list"
  have "posix_relpath cwd path start
          = (if path = [] then Inl ValueError
             else if rel_list = [] then Inr ''.'' else Inr (join_sep rel_list))"
    unfolding posix_relpath_def Let_def rel_list_def k_def i_def path_list_def start_list_def ..
  with assms(2) have r: "r = (if rel_list = [] then ''.'' else join_sep rel_list)"
    by (simp split: if_splits)
  have pl: "plain_component x" if "x \<in> set (drop i path_list)" for x
    using in_set_dropD [OF that] assms(1) by (simp add: path_list_def list_all_iff)
  have "backslash \<notin> set x" if "x \<in> set rel_list" for x
    using that pl by (auto simp: rel_list_def plain_component_def)
  then have "backslash \<notin> set (join_sep rel_list)"
    using join_sep_chars [of rel_list] by auto
  then have nb: "backslash \<notin> set r" using r by simp
  have "parent_marked r \<or> \<not> startswith r ''..''"
  proof (cases "rel_list = []")
    case True
    then show ?thesis using r by simp
  next
    case False
    then have rj: "r = join_sep rel_list" using r by simp
    from join_sep_hd [OF False]
    have j: "r = hd rel_list \<or> (\<exists>t. r = hd rel_list @ ''/'' @ t)" using rj by simp
    show ?thesis
    proof (cases k)
      case 0
      with False have "hd rel_list \<in> set (drop i path_list)"
        by (simp add: rel_list_def)
      from pl [OF this] obtain c cs where "hd rel_list = c # cs" "c \<noteq> CHR ''.''"
        by (cases "hd rel_list") (auto simp: plain_component_def)
      with j have "\<not> startswith r ''..''" by auto
      then show ?thesis ..
    next
      case (Suc k')
      then have "hd rel_list = ''..''" by (simp add: rel_list_def)
      with j have "parent_marked r" by (auto simp: parent_marked_def)
      then show ?thesis ..
    qed
  qed
  with nb show ?thesis ..
qed

lemma get_relative_path_deep_Nil:
  "get_relative_path_deep relpath file_path pkg [] = get_relative_path relpath file_path pkg"
  by (simp add: get_relative_path_deep_def get_relative_path_def)

lemma get_relative_path_Inr:
  "relpath (fspath (truediv SRC_DIR pkg)) (fspath (parent file_path)) = Inr r
   \<Longrightarrow> get_relative_path relpath file_path pkg
         = (if \<not> startswith (replace_backslashes r) ''..'' then ''./'' @ replace_backslashes r
            else replace_backslashes r)"
  by (simp add: get_relative_path_def Let_def)

lemma get_relative_path_deep_Inr:
  "relpath (fspath (if sub_path \<noteq> [] then truediv (truediv SRC_DIR pkg) sub_path
                     else truediv SRC_DIR pkg)) (fspath (parent file_path)) = Inr r
   \<Longrightarrow> get_relative_path_deep relpath file_path pkg sub_path
         = (if \<not> startswith (replace_backslashes r) ''..'' then ''./'' @ replace_backslashes r
            else replace_backslashes r)"
  by (simp add: get_relative_path_deep_def Let_def)

lemma explicit_cases:
  assumes "t = (if \<not> startswith (replace_backslashes r) ''..'' then ''./'' @ replace_backslashes r
                else replace_backslashes r)"
  shows "backslash \<notin> set t
     \<and> (\<not> startswith (replace_backslashes r) ''..''
          \<longrightarrow> t = ''./'' @ replace_backslashes r \<and> explicit_relative t)
     \<and> (parent_marked (replace_backslashes r)
          \<longrightarrow> t = replace_backslashes r \<and> explicit_relative t)"
  using assms parent_marked_startswith [of "replace_backslashes r"]
    explicit_relative_prefixed [of r] explicit_relative_parent [of r]
    replace_backslashes_none [of r]
  by auto

lemma posix_package_explicit:
  assumes "pkg \<in> set PACKAGES"
  shows "explicit_relative (get_relative_path (posix_relpath cwd) file_path pkg)"
proof -
  let ?t = "fspath (truediv SRC_DIR pkg)" and ?d = "fspath (parent file_path)"
  from posix_relpath_returns [OF fspath_nonempty, of cwd "truediv SRC_DIR pkg" ?d]
  obtain r where r: "posix_relpath cwd ?t ?d = Inr r" by blast
  from posix_relpath_shape [OF package_target_plain [OF assms] r]
  have nb: "backslash \<notin> set r" and sh: "parent_marked r \<or> \<not> startswith r ''..''" by simp_all
  from nb have id: "replace_backslashes r = r" by (rule replace_backslashes_id)
  from explicit_cases [OF get_relative_path_Inr [where relpath = "posix_relpath cwd", OF r]] sh
  show ?thesis
    unfolding id by blast
qed

text \<open>
  Claim C2, as amended.  Whenever \<open>os.path.relpath\<close> returns a path, the string returned
  by \<open>get_relative_path\<close> holds no backslash.  When the computed path, with its
  backslashes replaced, does not start with \<open>..\<close>, the result is that path with \<open>./\<close>
  put before it; when it begins with a parent-directory marker, the result is that path
  itself; either way the result is an explicit relative import.  For every file and
  every configured package without a sub-path, on a POSIX host, the result is an explicit
  relative import.
\<close>

theorem relative_path_explicit:
  "(relpath (fspath (truediv SRC_DIR pkg)) (fspath (parent file_path)) = Inr rel_path
      \<longrightarrow> backslash \<notin> set (get_relative_path relpath file_path pkg)
        \<and> (\<not> startswith (replace_backslashes rel_path) ''..''
             \<longrightarrow> get_relative_path relpath file_path pkg = ''./'' @ replace_backslashes rel_path
               \<and> explicit_relative (get_relative_path relpath file_path pkg))
        \<and> (parent_marked (replace_backslashes rel_path)
             \<longrightarrow> get_relative_path relpath file_path pkg = replace_backslashes rel_path
               \<and> explicit_relative (get_relative_path relpath file_path pkg)))
   \<and> (relpath (fspath (if sub_path \<noteq> [] then truediv (truediv SRC_DIR pkg) sub_path
                         else truediv SRC_DIR pkg)) (fspath (parent file_path)) = Inr rel_path
      \<longrightarrow> backslash \<notin> set (get_relative_path_deep relpath file_path pkg sub_path)
        \<and> (\<not> startswith (replace_backslashes rel_path) ''..''
             \<longrightarrow> get_relative_path_deep relpath file_path pkg sub_path
                   = ''./'' @ replace_backslashes rel_path
               \<and> explicit_relative (get_relative_path_deep relpath file_path pkg sub_path))
        \<and> (parent_marked (replace_backslashes rel_path)
             \<longrightarrow> get_relative_path_deep relpath file_path pkg sub_path
                   = replace_backslashes rel_path
               \<and> explicit_relative (get_relative_path_deep relpath file_path pkg sub_path)))
   \<and> (pkg \<in> set PACKAGES
      \<longrightarrow> explicit_relative (get_relative_path (posix_relpath cwd) file_path pkg)
        \<and> explicit_relative (get_relative_path_deep (posix_relpath cwd) file_path pkg []))"
proof (intro conjI impI)
  assume h: "relpath (fspath (truediv SRC_DIR pkg)) (fspath (parent file_path)) = Inr rel_path"
  note c = explicit_cases [OF get_relative_path_Inr [where relpath = relpath, OF h]]
  from c show "backslash \<notin> set (get_relative_path relpath file_path pkg)" by blast
  {
    assume "\<not> startswith (replace_backslashes rel_path) ''..''"
    with c show "get_relative_path relpath file_path pkg = ''./'' @ replace_backslashes rel_path"
      and "explicit_relative (get_relative_path relpath file_path pkg)" by blast+
  }
  {
    assume "parent_marked (replace_backslashes rel_path)"
    with c show "get_relative_path relpath file_path pkg = replace_backslashes rel_path"
      and "explicit_relative (get_relative_path relpath file_path pkg)" by blast+
  }
next
  assume h: "relpath (fspath (if sub_path \<noteq> [] then truediv (truediv SRC_DIR pkg) sub_path
                         else truediv SRC_DIR pkg)) (fspath (parent file_path)) = Inr rel_path"
  note c = explicit_cases [OF get_relative_path_deep_Inr [where relpath = relpath, OF h]]
  from c show "backslash \<notin> set (get_relative_path_deep relpath file_path pkg sub_path)" by blast
  {
    assume "\<not> startswith (replace_backslashes rel_path) ''..''"
    with c show "get_relative_path_deep relpath file_path pkg sub_path
                   = ''./'' @ replace_backslashes rel_path"
      and "explicit_relative (get_relative_path_deep relpath file_path pkg sub_path)" by blast+
  }
  {
    assume "parent_marked (replace_backslashes rel_path)"
    with c show "get_relative_path_deep relpath file_path pkg sub_path
                   = replace_backslashes rel_path"
      and "explicit_relative (get_relative_path_deep relpath file_path pkg sub_path)" by blast+
  }
next
  assume "pkg \<in> set PACKAGES"
  then show "explicit_relative (get_relative_path (posix_relpath cwd) file_path pkg)"
    and "explicit_relative (get_relative_path_deep (posix_relpath cwd) file_path pkg [])"
    unfolding get_relative_path_deep_Nil by (rule posix_package_explicit)+
qed

theorem relative_path_explicit_witness:
  "posix_relpath ''/'' (fspath (truediv SRC_DIR ''types'')) (fspath (parent button_ts))
     = Inr ''../../types''
   \<and> parent_marked (replace_backslashes ''../../types'')
   \<and> get_relative_path (posix_relpath ''/'') button_ts ''types'' = ''../../types''
   \<and> explicit_relative (get_relative_path (posix_relpath ''/'') button_ts ''types'')
   \<and> ''user'' \<noteq> []
   \<and> posix_relpath ''/'' (fspath (truediv (truediv SRC_DIR ''types'') ''user''))
        (fspath (parent a_ts)) = Inr ''types/user''
   \<and> \<not> startswith (replace_backslashes ''types/user'') ''..''
   \<and> get_relative_path_deep (posix_relpath ''/'') a_ts ''types'' ''user'' = ''./types/user''
   \<and> explicit_relative (get_relative_path_deep (posix_relpath ''/'') a_ts ''types'' ''user'')
   \<and> drive_relpath ''C'' ''/work'' (fspath (truediv (truediv SRC_DIR ''types'') ''user''))
        (fspath (parent button_ts))
       = Inr (''..'' @ [backslash] @ ''..'' @ [backslash] @ ''types'' @ [backslash] @ ''user'')
   \<and> get_relative_path_deep (drive_relpath ''C'' ''/work'') button_ts ''types'' ''user''
       = ''../../types/user''
   \<and> ''hooks'' \<in> set PACKAGES
   \<and> explicit_relative (get_relative_path (posix_relpath ''/work'') a_ts ''hooks'')"
proof -
  have a: "posix_relpath ''/'' (fspath (truediv SRC_DIR ''types'')) (fspath (parent button_ts))
     = Inr ''../../types''"
    by code_simp
  have a': "parent_marked (replace_backslashes ''../../types'')"
    by code_simp
  have b: "posix_relpath ''/'' (fspath (if ''user'' \<noteq> []
                then truediv (truediv SRC_DIR ''types'') ''user'' else truediv SRC_DIR ''types''))
             (fspath (parent a_ts)) = Inr ''types/user''"
    by code_simp
  have b': "\<not> startswith (replace_backslashes ''types/user'') ''..''"
    by code_simp
  have c: "drive_relpath ''C'' ''/work'' (fspath (if ''user'' \<noteq> []
                then truediv (truediv SRC_DIR ''types'') ''user'' else truediv SRC_DIR ''types''))
             (fspath (parent button_ts))
       = Inr (''..'' @ [backslash] @ ''..'' @ [backslash] @ ''types'' @ [backslash] @ ''user'')"
    by code_simp
  have c': "parent_marked (replace_backslashes
              (''..'' @ [backslash] @ ''..'' @ [backslash] @ ''types'' @ [backslash] @ ''user''))"
    "replace_backslashes
       (''..'' @ [backslash] @ ''..'' @ [backslash] @ ''types'' @ [backslash] @ ''user'')
     = ''../../types/user''"
    by code_simp+
  have d: "''hooks'' \<in> set PACKAGES"
    by (simp add: PACKAGES_def)
  note t1 = relative_path_explicit [where relpath = "posix_relpath ''/''" and pkg = "''types''"
      and file_path = button_ts and rel_path = "''../../types''", THEN conjunct1, THEN mp, OF a]
  note t2 = relative_path_explicit [where relpath = "posix_relpath ''/''" and pkg = "''types''"
      and file_path = a_ts and sub_path = "''user''" and rel_path = "''types/user''",
      THEN conjunct2, THEN conjunct1, THEN mp, OF b]
  note t3 = relative_path_explicit [where relpath = "drive_relpath ''C'' ''/work''"
      and pkg = "''types''" and file_path = button_ts and sub_path = "''user''"
      and rel_path = "''..'' @ [backslash] @ ''..'' @ [backslash] @ ''types'' @ [backslash] @ ''user''",
      THEN conjunct2, THEN conjunct1, THEN mp, OF c]
  note t4 = relative_path_explicit [where pkg = "''hooks''" and cwd = "''/work''"
      and file_path = a_ts, THEN conjunct2, THEN conjunct2, THEN mp, OF d]
  note x1 = t1 [THEN conjunct2, THEN conjunct2, THEN mp, OF a']
  note x2 = t2 [THEN conjunct2, THEN conjunct1, THEN mp, OF b']
  have r1: "get_relative_path (posix_relpath ''/'') button_ts ''types'' = ''../../types''"
    using x1 [THEN conjunct1] by (simp add: replace_backslashes_def)
  have r1e: "explicit_relative (get_relative_path (posix_relpath ''/'') button_ts ''types'')"
    by (rule x1 [THEN conjunct2])
  have r2: "get_relative_path_deep (posix_relpath ''/'') a_ts ''types'' ''user'' = ''./types/user''"
    using x2 [THEN conjunct1] by (simp add: replace_backslashes_def)
  have r2e: "explicit_relative (get_relative_path_deep (posix_relpath ''/'') a_ts ''types'' ''user'')"
    by (rule x2 [THEN conjunct2])
  have r3: "get_relative_path_deep (drive_relpath ''C'' ''/work'') button_ts ''types'' ''user''
       = ''../../types/user''"
    using t3 [THEN conjunct2, THEN conjunct2, THEN mp, OF c'(1)] c'(2) by simp
  have r4: "explicit_relative (get_relative_path (posix_relpath ''/work'') a_ts ''hooks'')"
    using t4 by blast
  from b c have b2: "posix_relpath ''/'' (fspath (truediv (truediv SRC_DIR ''types'') ''user''))
        (fspath (parent a_ts)) = Inr ''types/user''"
    and c2: "drive_relpath ''C'' ''/work'' (fspath (truediv (truediv SRC_DIR ''types'') ''user''))
        (fspath (parent button_ts))
       = Inr (''..'' @ [backslash] @ ''..'' @ [backslash] @ ''types'' @ [backslash] @ ''user'')"
    by simp_all
  have u: "''user'' \<noteq> []" by simp
  from a a' r1 r1e u b2 b' r2 r2e c2 r3 d r4 show ?thesis by blast
qed

text \<open>
  Claim C2 as stated fails where \<open>relpath\<close> raises: for a file on another drive the
  result is the bare \<open>types/user\<close> (and \<open>types\<close> in the script without sub-paths).
\<close>

theorem fallback_is_bare_name:
  "get_relative_path_deep (drive_relpath ''C'' ''/work'') other_drive_ts ''types'' ''user'' = ''types/user''
   \<and> \<not> startswith (get_relative_path_deep (drive_relpath ''C'' ''/work'') other_drive_ts ''types'' ''user'') ''..''
   \<and> \<not> startswith (get_relative_path_deep (drive_relpath ''C'' ''/work'') other_drive_ts ''types'' ''user'') ''./''
   \<and> get_relative_path (drive_relpath ''C'' ''/work'') other_drive_ts ''types'' = ''types''"
  by code_simp

text \<open>
  The test \<open>startswith("..")\<close> compares characters, not components.  When the computed
  path begins with a component that is not \<open>..\<close> but is spelt with two leading dots, the
  test holds and no \<open>./\<close> is put before the path, against the comment
  \<open>Ensure it starts with ./ or ../\<close>.  This case is outside the theorem of claim C2.
  It arises in \<open>replace-imports-deep.py\<close> for a file of the package's directory and a
  sub-path whose first component is spelt so.
\<close>

lemma dotted_component_not_prefixed:
  \<open>get_relative_path_deep (posix_relpath ''/'') index_ts ''types'' ''..foo/x'' = ''..foo/x''
   \<and> \<not> explicit_relative ''..foo/x''
   \<and> replace_deep_imports_content (posix_relpath ''/'') index_ts
         ''import { x } from "@ankaa/types/..foo/x"''
       = (''import { x } from "..foo/x"'', 1)\<close>
  by code_simp


section \<open>Properties of the rewriters as file operations\<close>

definition plain_world :: world where
  \<open>plain_world =
     \<lparr>tree = [button_ts], present = (\<lambda>p. True), regular = (\<lambda>p. True),
      text_of = (\<lambda>p. if p = button_ts then Some ''import React from "react"'' else None),
      write_outcome = (\<lambda>p. Written), opened = [], console = []\<rparr>\<close>

definition readonly_world :: world where
  \<open>readonly_world =
     \<lparr>tree = [button_ts], present = (\<lambda>p. True), regular = (\<lambda>p. True),
      text_of = (\<lambda>p. if p = button_ts then Some ''import { x } from "@ankaa/types/user"''
                      else None),
      write_outcome = (\<lambda>p. Open_raises), opened = [], console = []\<rparr>\<close>

definition full_disk_world :: world where
  \<open>full_disk_world =
     \<lparr>tree = [button_ts], present = (\<lambda>p. True), regular = (\<lambda>p. True),
      text_of = (\<lambda>p. if p = button_ts then Some ''import { x } from "@ankaa/types/user"''
                      else None),
      write_outcome = (\<lambda>p. Write_raises 6), opened = [], console = []\<rparr>\<close>

lemma simple_package_step_no_match:
  "findall_simple package (fst acc) = [] \<Longrightarrow> simple_package_step relpath file_path acc package = acc"
  by (simp add: simple_package_step_def)

lemma deep_package_step_no_match:
  "finditer_deep package (fst acc) = [] \<Longrightarrow> deep_package_step relpath file_path acc package = acc"
  by (simp add: deep_package_step_def)

lemma foldl_simple_no_match:
  "\<forall>package \<in> set packages. findall_simple package (fst acc) = []
     \<Longrightarrow> foldl (simple_package_step relpath file_path) acc packages = acc"
  by (induction packages) (simp_all add: simple_package_step_no_match)

lemma foldl_deep_no_match:
  "\<forall>package \<in> set packages. finditer_deep package (fst acc) = []
     \<Longrightarrow> foldl (deep_package_step relpath file_path) acc packages = acc"
  by (induction packages) (simp_all add: deep_package_step_no_match)

lemma rewrite_file_unchanged:
  "text_of w file_path = Some content \<Longrightarrow> fst (rewrite file_path content) = content
     \<Longrightarrow> rewrite_file rewrite file_path w = ((False, 0), open_file file_path Reading w)"
  by (cases "rewrite file_path content") (simp add: rewrite_file_def Let_def)

lemma rewrite_file_modified:
  "text_of w file_path = Some content \<Longrightarrow> rewrite file_path content = (content', n)
     \<Longrightarrow> content' \<noteq> content \<Longrightarrow> write_outcome w file_path = Written
     \<Longrightarrow> rewrite_file rewrite file_path w
           = ((True, n), write_text file_path content'
                           (open_file file_path Writing (open_file file_path Reading w)))"
  by (simp add: rewrite_file_def Let_def)

lemma rewrite_file_unreadable:
  "text_of w file_path = None
     \<Longrightarrow> rewrite_file rewrite file_path w
           = ((False, 0), print (Error_reading file_path) (open_file file_path Reading w))"
  by (simp add: rewrite_file_def Let_def)

text \<open>
  Claim C5.  For a file whose text holds no match of any package's pattern, either
  rewriter returns \<open>(False, 0)\<close> and does nothing but open the file for reading: the
  text stays as it is, the file is not opened for writing and nothing is printed.  More
  generally this is so whenever the rewritten text equals the original one.
\<close>

theorem unreferenced_file_untouched:
  "text_of w file_path = Some content \<longrightarrow>
     ((\<forall>package \<in> set PACKAGES. findall_simple package content = [])
        \<longrightarrow> replace_imports_in_file relpath file_path w
              = ((False, 0), open_file file_path Reading w))
   \<and> ((\<forall>package \<in> set PACKAGES. finditer_deep package content = [])
        \<longrightarrow> replace_deep_imports_in_file relpath file_path w
              = ((False, 0), open_file file_path Reading w))
   \<and> (fst (rewrite file_path content) = content
        \<longrightarrow> rewrite_file rewrite file_path w = ((False, 0), open_file file_path Reading w))
   \<and> text_of (open_file file_path Reading w) = text_of w
   \<and> opened (open_file file_path Reading w) = opened w @ [(file_path, Reading)]
   \<and> console (open_file file_path Reading w) = console w"
proof (intro impI conjI)
  assume t: "text_of w file_path = Some content"
  {
    assume "\<forall>package \<in> set PACKAGES. findall_simple package content = []"
    then have "replace_imports_content relpath file_path content = (content, 0)"
      by (simp add: replace_imports_content_def foldl_simple_no_match)
    with t show "replace_imports_in_file relpath file_path w
                   = ((False, 0), open_file file_path Reading w)"
      by (simp add: replace_imports_in_file_def rewrite_file_unchanged)
  }
  {
    assume "\<forall>package \<in> set PACKAGES. finditer_deep package content = []"
    then have "replace_deep_imports_content relpath file_path content = (content, 0)"
      by (simp add: replace_deep_imports_content_def foldl_deep_no_match)
    with t show "replace_deep_imports_in_file relpath file_path w
                   = ((False, 0), open_file file_path Reading w)"
      by (simp add: replace_deep_imports_in_file_def rewrite_file_unchanged)
  }
  {
    assume "fst (rewrite file_path content) = content"
    with t show "rewrite_file rewrite file_path w = ((False, 0), open_file file_path Reading w)"
      by (rule rewrite_file_unchanged)
  }
qed (simp_all add: open_file_def)

lemma plain_no_simple: \<open>\<forall>package \<in> set PACKAGES. findall_simple package ''import React from "react"'' = []\<close>
  by (simp add: PACKAGES_def match_simple_def match_from_def is_space_def is_quote_def)

lemma plain_no_deep: \<open>\<forall>package \<in> set PACKAGES. finditer_deep package ''import React from "react"'' = []\<close>
  by (simp add: PACKAGES_def match_deep_def match_from_or_import_def match_from_def
      match_import_def is_space_def is_quote_def)

theorem unreferenced_file_untouched_witness:
  \<open>text_of plain_world button_ts = Some ''import React from "react"''
   \<and> list_all (\<lambda>package. findall_simple package ''import React from "react"'' = []) PACKAGES
   \<and> list_all (\<lambda>package. finditer_deep package ''import React from "react"'' = []) PACKAGES
   \<and> replace_imports_in_file (posix_relpath ''/'') button_ts plain_world
       = ((False, 0), open_file button_ts Reading plain_world)
   \<and> replace_deep_imports_in_file (posix_relpath ''/'') button_ts plain_world
       = ((False, 0), open_file button_ts Reading plain_world)
   \<and> text_of (open_file button_ts Reading plain_world) button_ts
       = Some ''import React from "react"''\<close>
proof -
  have t: \<open>text_of plain_world button_ts = Some ''import React from "react"''\<close>
    by (simp add: plain_world_def)
  show ?thesis
    using t plain_no_simple plain_no_deep
      unreferenced_file_untouched [of plain_world button_ts \<open>''import React from "react"''\<close>
        "posix_relpath ''/''" "\<lambda>p c. (c, 0)"]
    by (simp add: list_all_iff)
qed

lemma rewrite_file_open_raises:
  "text_of w file_path = Some content \<Longrightarrow> fst (rewrite file_path content) \<noteq> content
     \<Longrightarrow> write_outcome w file_path = Open_raises
     \<Longrightarrow> rewrite_file rewrite file_path w
           = ((False, 0), print (Error_writing file_path)
                            (open_file file_path Writing (open_file file_path Reading w)))"
  by (cases "rewrite file_path content") (simp add: rewrite_file_def Let_def)

lemma rewrite_file_write_raises:
  "text_of w file_path = Some content \<Longrightarrow> fst (rewrite file_path content) \<noteq> content
     \<Longrightarrow> write_outcome w file_path = Write_raises k
     \<Longrightarrow> rewrite_file rewrite file_path w
           = ((False, 0), print (Error_writing file_path)
                            (write_text file_path (take k (fst (rewrite file_path content)))
                              (open_file file_path Writing (open_file file_path Reading w))))"
  by (cases "rewrite file_path content") (simp add: rewrite_file_def Let_def)

lemma button_deep: \<open>replace_deep_imports_content (posix_relpath ''/'') button_ts
       ''import { x } from "@ankaa/types/user"''
     = (''import { x } from "../../types/user"'', 1)\<close>
  by code_simp

text \<open>
  Claim C10.  When the rewritten text differs from the original and the file cannot be
  written, either rewriter returns \<open>(False, 0)\<close>, whatever number of substitutions it had
  counted; the failure is printed.  When \<open>open\<close> raises, the file keeps its text; when
  the write raises after that, the file is left with the part of the new text that was
  written.
\<close>

theorem failed_write_reports_nothing:
  "text_of w file_path = Some content
   \<longrightarrow> (fst (replace_imports_content relpath file_path content) \<noteq> content
          \<longrightarrow> (write_outcome w file_path = Open_raises
                 \<longrightarrow> replace_imports_in_file relpath file_path w
                       = ((False, 0), print (Error_writing file_path)
                            (open_file file_path Writing (open_file file_path Reading w))))
            \<and> (write_outcome w file_path = Write_raises k
                 \<longrightarrow> replace_imports_in_file relpath file_path w
                       = ((False, 0), print (Error_writing file_path)
                            (write_text file_path
                              (take k (fst (replace_imports_content relpath file_path content)))
                              (open_file file_path Writing (open_file file_path Reading w)))))
            \<and> (write_outcome w file_path \<noteq> Written
                 \<longrightarrow> fst (replace_imports_in_file relpath file_path w) = (False, 0)))
     \<and> (fst (replace_deep_imports_content relpath file_path content) \<noteq> content
          \<longrightarrow> (write_outcome w file_path = Open_raises
                 \<longrightarrow> replace_deep_imports_in_file relpath file_path w
                       = ((False, 0), print (Error_writing file_path)
                            (open_file file_path Writing (open_file file_path Reading w))))
            \<and> (write_outcome w file_path = Write_raises k
                 \<longrightarrow> replace_deep_imports_in_file relpath file_path w
                       = ((False, 0), print (Error_writing file_path)
                            (write_text file_path
                              (take k (fst (replace_deep_imports_content relpath file_path content)))
                              (open_file file_path Writing (open_file file_path Reading w)))))
            \<and> (write_outcome w file_path \<noteq> Written
                 \<longrightarrow> fst (replace_deep_imports_in_file relpath file_path w) = (False, 0)))"
proof -
  have "(write_outcome w file_path = Open_raises
           \<longrightarrow> rewrite_file rewrite file_path w
                 = ((False, 0), print (Error_writing file_path)
                      (open_file file_path Writing (open_file file_path Reading w))))
      \<and> (write_outcome w file_path = Write_raises k
           \<longrightarrow> rewrite_file rewrite file_path w
                 = ((False, 0), print (Error_writing file_path)
                      (write_text file_path (take k (fst (rewrite file_path content)))
                        (open_file file_path Writing (open_file file_path Reading w)))))
      \<and> (write_outcome w file_path \<noteq> Written
           \<longrightarrow> fst (rewrite_file rewrite file_path w) = (False, 0))"
    if "text_of w file_path = Some content" "fst (rewrite file_path content) \<noteq> content"
    for rewrite
    using that rewrite_file_open_raises [of w file_path content rewrite]
      rewrite_file_write_raises [of w file_path content rewrite]
    by (cases "write_outcome w file_path") simp_all
  then show ?thesis
    unfolding replace_imports_in_file_def replace_deep_imports_in_file_def by blast
qed

theorem failed_write_reports_nothing_witness:
  \<open>text_of readonly_world button_ts = Some ''import { x } from "@ankaa/types/user"''
   \<and> write_outcome readonly_world button_ts = Open_raises
   \<and> text_of full_disk_world button_ts = Some ''import { x } from "@ankaa/types/user"''
   \<and> write_outcome full_disk_world button_ts = Write_raises 6
   \<and> replace_deep_imports_content (posix_relpath ''/'') button_ts
        ''import { x } from "@ankaa/types/user"'' = (''import { x } from "../../types/user"'', 1)
   \<and> replace_deep_imports_in_file (posix_relpath ''/'') button_ts readonly_world
       = ((False, 0), print (Error_writing button_ts)
            (open_file button_ts Writing (open_file button_ts Reading readonly_world)))
   \<and> replace_deep_imports_in_file (posix_relpath ''/'') button_ts full_disk_world
       = ((False, 0), print (Error_writing button_ts)
            (write_text button_ts ''import''
              (open_file button_ts Writing (open_file button_ts Reading full_disk_world))))\<close>
proof -
  have t: \<open>text_of readonly_world button_ts = Some ''import { x } from "@ankaa/types/user"''\<close>
    \<open>text_of full_disk_world button_ts = Some ''import { x } from "@ankaa/types/user"''\<close>
    by (simp_all add: readonly_world_def full_disk_world_def)
  have nw: "write_outcome readonly_world button_ts = Open_raises"
    "write_outcome full_disk_world button_ts = Write_raises 6"
    by (simp_all add: readonly_world_def full_disk_world_def)
  show ?thesis
    using t nw button_deep
      failed_write_reports_nothing [of readonly_world button_ts
        \<open>''import { x } from "@ankaa/types/user"''\<close> "posix_relpath ''/''" 6]
      failed_write_reports_nothing [of full_disk_world button_ts
        \<open>''import { x } from "@ankaa/types/user"''\<close> "posix_relpath ''/''" 6]
    by simp
qed


section \<open>Properties of the directory walker\<close>

text \<open>The test of \<open>process_directory\<close> that skips a path.\<close>

definition excluded :: "path \<Rightarrow> bool" where
  "excluded p = (''node_modules'' \<in> set (parts p) \<or> ''.git'' \<in> set (parts p))"

lemma rewrite_file_frame:
  assumes "rewrite_file rewrite file_path w = (r, w')"
  shows "regular w' = regular w"
    and "\<exists>es. opened w' = opened w @ es \<and> fst ` set es \<subseteq> {file_path}"
    and "q \<noteq> file_path \<Longrightarrow> text_of w' q = text_of w q"
proof -
  obtain c n where rw: "rewrite file_path (the (text_of w file_path)) = (c, n)"
    by (cases "rewrite file_path (the (text_of w file_path))")
  have "regular w' = regular w
    \<and> (\<exists>es. opened w' = opened w @ es \<and> fst ` set es \<subseteq> {file_path})
    \<and> (q \<noteq> file_path \<longrightarrow> text_of w' q = text_of w q)"
    using assms rw
    by (auto simp: rewrite_file_def Let_def open_file_def print_def write_text_def
             split: option.splits if_splits write_outcome.splits)
  then show "regular w' = regular w"
    and "\<exists>es. opened w' = opened w @ es \<and> fst ` set es \<subseteq> {file_path}"
    and "q \<noteq> file_path \<Longrightarrow> text_of w' q = text_of w q"
    by blast+
qed

lemma process_paths_skip:
  "excluded p \<or> \<not> regular w p
     \<Longrightarrow> process_paths rewriter (p # ps) st w = process_paths rewriter ps st w"
  by (auto simp: excluded_def)

lemma process_paths_unmodified:
  "\<not> excluded p \<Longrightarrow> regular w p \<Longrightarrow> rewriter p w = ((False, count), w1)
     \<Longrightarrow> process_paths rewriter (p # ps) st w
           = process_paths rewriter ps (st\<lparr>files_processed := files_processed st + 1\<rparr>) w1"
  by (simp add: excluded_def)

lemma process_paths_modified:
  "\<not> excluded p \<Longrightarrow> regular w p \<Longrightarrow> rewriter p w = ((True, count), w1)
     \<Longrightarrow> process_paths rewriter (p # ps) st w
           = (case relative_to p WEB_DIR of
                Inl e \<Rightarrow> (Inl e, w1)
              | Inr rel_file \<Rightarrow>
                  process_paths rewriter ps
                    (st\<lparr>files_processed := files_processed st + 1,
                        files_modified := files_modified st + 1,
                        total_replacements := total_replacements st + count\<rparr>)
                    (print (Imports_replaced rel_file count) w1))"
  by (simp add: excluded_def Let_def split: sum.splits)

lemma process_paths_Cons_cases:
  assumes "process_paths (rewrite_file rewrite) (p # ps) st w = (r, w')"
  obtains
    (skip) "excluded p \<or> \<not> regular w p"
           "process_paths (rewrite_file rewrite) ps st w = (r, w')"
  | (raised) modified count w1 where
      "\<not> excluded p" "regular w p" "rewrite_file rewrite p w = ((modified, count), w1)"
      "r = Inl ValueError" "w' = w1"
  | (continue) modified count w1 st2 w2 where
      "\<not> excluded p" "regular w p" "rewrite_file rewrite p w = ((modified, count), w1)"
      "process_paths (rewrite_file rewrite) ps st2 w2 = (r, w')"
      "files_processed st2 = files_processed st + 1" "errors st2 = errors st"
      "regular w2 = regular w1" "opened w2 = opened w1" "text_of w2 = text_of w1"
proof (cases "excluded p \<or> \<not> regular w p")
  case True
  with assms have "process_paths (rewrite_file rewrite) ps st w = (r, w')"
    by (simp only: process_paths_skip)
  with True show ?thesis by (rule skip)
next
  case False
  then have ne: "\<not> excluded p" and reg_p: "regular w p" by simp_all
  obtain modified count w1 where rf: "rewrite_file rewrite p w = ((modified, count), w1)"
    by (metis surj_pair)
  show ?thesis
  proof (cases modified)
    case m: True
    with rf have rf': "rewrite_file rewrite p w = ((True, count), w1)" by simp
    note step = process_paths_modified
      [where rewriter = "rewrite_file rewrite" and ps = ps and st = st, OF ne reg_p rf']
    show ?thesis
    proof (cases "relative_to p WEB_DIR")
      case (Inl e)
      then have "relative_to p WEB_DIR = Inl ValueError" by (cases e) simp
      with assms step have "r = Inl ValueError" "w' = w1"
        by (simp_all del: process_paths.simps)
      with ne reg_p rf show ?thesis by (rule raised)
    next
      case (Inr rel_file)
      with assms step
      have "process_paths (rewrite_file rewrite) ps
              (st\<lparr>files_processed := files_processed st + 1,
                  files_modified := files_modified st + 1,
                  total_replacements := total_replacements st + count\<rparr>)
              (print (Imports_replaced rel_file count) w1) = (r, w')"
        by (simp del: process_paths.simps)
      with ne reg_p rf show ?thesis
        by (rule continue) (simp_all add: print_def)
    qed
  next
    case False
    with rf have rf': "rewrite_file rewrite p w = ((False, count), w1)" by simp
    note step = process_paths_unmodified
      [where rewriter = "rewrite_file rewrite" and ps = ps and st = st, OF ne reg_p rf']
    with assms
    have "process_paths (rewrite_file rewrite) ps
            (st\<lparr>files_processed := files_processed st + 1\<rparr>) w1 = (r, w')"
      by (simp del: process_paths.simps)
    with ne reg_p rf show ?thesis
      by (rule continue) simp_all
  qed
qed

lemma process_paths_regular:
  "process_paths (rewrite_file rewrite) file_paths st w = (r, w') \<Longrightarrow> regular w' = regular w"
proof (induction file_paths arbitrary: st w)
  case Nil
  then show ?case by simp
next
  case (Cons p ps)
  from Cons.prems show ?case
  proof (cases rule: process_paths_Cons_cases)
    case skip
    then show ?thesis using Cons.IH by blast
  next
    case (raised modified count w1)
    then show ?thesis using rewrite_file_frame(1) by blast
  next
    case (continue modified count w1 st2 w2)
    have "regular w' = regular w2" using Cons.IH continue(4) by blast
    also have "\<dots> = regular w" using continue(7) rewrite_file_frame(1) [OF continue(3)] by simp
    finally show ?thesis .
  qed
qed


lemma process_paths_opened:
  "process_paths (rewrite_file rewrite) file_paths st w = (r, w')
   \<Longrightarrow> \<exists>es. opened w' = opened w @ es
            \<and> fst ` set es \<subseteq> {q \<in> set file_paths. \<not> excluded q \<and> regular w q}"
proof (induction file_paths arbitrary: st w)
  case Nil
  then show ?case by simp
next
  case (Cons p ps)
  from Cons.prems show ?case
  proof (cases rule: process_paths_Cons_cases)
    case skip
    from Cons.IH [OF skip(2)] obtain es where
      "opened w' = opened w @ es" "fst ` set es \<subseteq> {q \<in> set ps. \<not> excluded q \<and> regular w q}"
      by blast
    then have "opened w' = opened w @ es
        \<and> fst ` set es \<subseteq> {q \<in> set (p # ps). \<not> excluded q \<and> regular w q}"
      by auto
    then show ?thesis ..
  next
    case (raised modified count w1)
    from rewrite_file_frame(2) [OF raised(3)] obtain es where
      "opened w1 = opened w @ es" "fst ` set es \<subseteq> {p}"
      by blast
    with raised have "opened w' = opened w @ es
        \<and> fst ` set es \<subseteq> {q \<in> set (p # ps). \<not> excluded q \<and> regular w q}"
      by auto
    then show ?thesis ..
  next
    case (continue modified count w1 st2 w2)
    from rewrite_file_frame(2) [OF continue(3)] obtain es1 where
      es1: "opened w1 = opened w @ es1" "fst ` set es1 \<subseteq> {p}"
      by blast
    have reg: "regular w2 = regular w"
      using continue(7) rewrite_file_frame(1) [OF continue(3)] by simp
    from Cons.IH [OF continue(4)] obtain es2 where
      es2: "opened w' = opened w2 @ es2"
           "fst ` set es2 \<subseteq> {q \<in> set ps. \<not> excluded q \<and> regular w2 q}"
      by blast
    have a: "opened w' = opened w @ (es1 @ es2)"
      using es1(1) es2(1) continue(8) by simp
    have b: "fst ` set es1 \<subseteq> {q \<in> set (p # ps). \<not> excluded q \<and> regular w q}"
      using es1(2) continue(1,2) by auto
    have c: "fst ` set es2 \<subseteq> {q \<in> set (p # ps). \<not> excluded q \<and> regular w q}"
      using es2(2) reg by auto
    have "opened w' = opened w @ (es1 @ es2)
        \<and> fst ` set (es1 @ es2) \<subseteq> {q \<in> set (p # ps). \<not> excluded q \<and> regular w q}"
      using a b c by (simp add: image_Un)
    then show ?thesis ..
  qed
qed

lemma process_paths_text_of:
  "process_paths (rewrite_file rewrite) file_paths st w = (r, w')
   \<Longrightarrow> \<not> (q \<in> set file_paths \<and> \<not> excluded q \<and> regular w q)
   \<Longrightarrow> text_of w' q = text_of w q"
proof (induction file_paths arbitrary: st w)
  case Nil
  then show ?case by simp
next
  case (Cons p ps)
  from Cons.prems(1) show ?case
  proof (cases rule: process_paths_Cons_cases)
    case skip
    have "\<not> (q \<in> set ps \<and> \<not> excluded q \<and> regular w q)" using Cons.prems(2) by auto
    with Cons.IH [OF skip(2)] show ?thesis by blast
  next
    case (raised modified count w1)
    have "q \<noteq> p" using Cons.prems(2) raised(1,2) by auto
    with rewrite_file_frame(3) [OF raised(3)] raised(5) show ?thesis by simp
  next
    case (continue modified count w1 st2 w2)
    have qp: "q \<noteq> p" using Cons.prems(2) continue(1,2) by auto
    have reg: "regular w2 = regular w"
      using continue(7) rewrite_file_frame(1) [OF continue(3)] by simp
    have "\<not> (q \<in> set ps \<and> \<not> excluded q \<and> regular w2 q)" using Cons.prems(2) reg by auto
    with Cons.IH [OF continue(4)] have "text_of w' q = text_of w2 q" by blast
    also have "\<dots> = text_of w1 q" using continue(9) by simp
    also have "\<dots> = text_of w q" using rewrite_file_frame(3) [OF continue(3) qp] .
    finally show ?thesis .
  qed
qed

lemma process_paths_count:
  "process_paths (rewrite_file rewrite) file_paths st w = (Inr st', w')
   \<Longrightarrow> files_processed st'
         = files_processed st + length (filter (\<lambda>q. \<not> excluded q \<and> regular w q) file_paths)
       \<and> errors st' = errors st"
proof (induction file_paths arbitrary: st w)
  case Nil
  then show ?case by simp
next
  case (Cons p ps)
  from Cons.prems show ?case
  proof (cases rule: process_paths_Cons_cases)
    case skip
    with Cons.IH [OF skip(2)] show ?thesis by auto
  next
    case (raised modified count w1)
    then show ?thesis by simp
  next
    case (continue modified count w1 st2 w2)
    have reg: "regular w2 = regular w"
      using continue(7) rewrite_file_frame(1) [OF continue(3)] by simp
    from Cons.IH [OF continue(4)] continue(1,2,5,6) reg show ?thesis by simp
  qed
qed

text \<open>
  Claim C9.  A path with a component \<open>node_modules\<close> or \<open>.git\<close> is never handed to the
  rewriter by either walker: its text after the walk is its text before, no \<open>open\<close>
  call of the walk names it, and the files counted in \<open>files_processed\<close> are exactly
  the regular files found that have no such component.
\<close>

theorem excluded_files_never_processed:
  "excluded p \<longrightarrow>
     (process_directory relpath directory w = (r, w') \<longrightarrow>
        text_of w' p = text_of w p
        \<and> prefix (opened w) (opened w')
        \<and> p \<notin> fst ` set (drop (length (opened w)) (opened w'))
        \<and> (\<forall>st. r = Inr st \<longrightarrow>
              files_processed st
                = length (filter (\<lambda>q. \<not> excluded q \<and> regular w q) (rglob w directory))))
   \<and> (process_directory_deep relpath directory w = (r, w') \<longrightarrow>
        text_of w' p = text_of w p
        \<and> prefix (opened w) (opened w')
        \<and> p \<notin> fst ` set (drop (length (opened w)) (opened w'))
        \<and> (\<forall>st. r = Inr st \<longrightarrow>
              files_processed st
                = length (filter (\<lambda>q. \<not> excluded q \<and> regular w q) (rglob w directory))))"
proof -
  have walk: "text_of w' p = text_of w p
        \<and> prefix (opened w) (opened w')
        \<and> p \<notin> fst ` set (drop (length (opened w)) (opened w'))
        \<and> (\<forall>st. r = Inr st \<longrightarrow>
              files_processed st
                = length (filter (\<lambda>q. \<not> excluded q \<and> regular w q) (rglob w directory)))"
    if ex: "excluded p"
      and run: "process_paths (rewrite_file rewrite) (rglob w directory) initial_stats w = (r, w')"
    for rewrite
  proof -
    have t: "text_of w' p = text_of w p"
      using process_paths_text_of [OF run] ex by blast
    from process_paths_opened [OF run] obtain es where
      es: "opened w' = opened w @ es"
          "fst ` set es \<subseteq> {q \<in> set (rglob w directory). \<not> excluded q \<and> regular w q}"
      by blast
    have o: "prefix (opened w) (opened w')" using es(1) by simp
    have n: "p \<notin> fst ` set (drop (length (opened w)) (opened w'))"
      using es ex by auto
    have c: "\<forall>st. r = Inr st \<longrightarrow> files_processed st
                = length (filter (\<lambda>q. \<not> excluded q \<and> regular w q) (rglob w directory))"
      using process_paths_count [of rewrite "rglob w directory" initial_stats w _ w'] run
      by (auto simp: initial_stats_def)
    show ?thesis using t o n c by blast
  qed
  show ?thesis
    using walk [of "replace_imports_content relpath"]
      walk [of "replace_deep_imports_content relpath"]
    by (simp add: process_directory_def process_directory_deep_def
        replace_imports_in_file_def replace_deep_imports_in_file_def)
qed

definition vendored_ts :: path where
  "vendored_ts = truediv SRC_DIR ''node_modules/pkg/index.ts''"

definition walk_world :: world where
  \<open>walk_world =
     \<lparr>tree = [truediv SRC_DIR ''components'', button_ts, vendored_ts],
      present = (\<lambda>p. True),
      regular = (\<lambda>p. p = button_ts \<or> p = vendored_ts),
      text_of = (\<lambda>p. if p = button_ts \<or> p = vendored_ts
                      then Some ''import { x } from "@ankaa/types/user"'' else None),
      write_outcome = (\<lambda>p. Written), opened = [], console = []\<rparr>\<close>

definition walk_world_after :: world where
  \<open>walk_world_after =
     print (Imports_replaced (Path [] [''src'', ''components'', ''widgets'', ''Button.ts'']) 1)
       (write_text button_ts ''import { x } from "../../types/user"''
         (open_file button_ts Writing (open_file button_ts Reading walk_world)))\<close>

lemma rglob_walk_world: "rglob walk_world SRC_DIR = [button_ts, vendored_ts]"
  by (simp add: rglob_def walk_world_def button_ts_def vendored_ts_def SRC_DIR_def WEB_DIR_def
      truediv_def parse_path_def join_def fspath_def lstrip_sep_def parts_def strict_prefix_def)

lemma walk_world_run:
  "process_directory_deep (posix_relpath ''/'') SRC_DIR walk_world
     = (Inr \<lparr>files_processed = 1, files_modified = 1, total_replacements = 1, errors = []\<rparr>,
        walk_world_after)"
proof -
  have ex: "excluded vendored_ts" "\<not> excluded button_ts"
    by (simp_all add: excluded_def button_ts_def vendored_ts_def SRC_DIR_def WEB_DIR_def
      truediv_def parse_path_def join_def fspath_def lstrip_sep_def parts_def)
  have reg: "regular walk_world button_ts" by (simp add: walk_world_def)
  have rel: "relative_to button_ts WEB_DIR
               = Inr (Path [] [''src'', ''components'', ''widgets'', ''Button.ts''])"
    by (simp add: relative_to_def button_ts_def SRC_DIR_def WEB_DIR_def
      truediv_def parse_path_def join_def fspath_def lstrip_sep_def parts_def)
  have tw: \<open>text_of walk_world button_ts = Some ''import { x } from "@ankaa/types/user"''\<close>
    "write_outcome walk_world button_ts = Written"
    by (simp_all add: walk_world_def)
  have rw: \<open>replace_deep_imports_in_file (posix_relpath ''/'') button_ts walk_world
     = ((True, 1), write_text button_ts ''import { x } from "../../types/user"''
         (open_file button_ts Writing (open_file button_ts Reading walk_world)))\<close>
    unfolding replace_deep_imports_in_file_def
    by (rule rewrite_file_modified
          [where rewrite = "replace_deep_imports_content (posix_relpath ''/'')",
            OF tw(1) button_deep _ tw(2)]) simp
  show ?thesis
    unfolding process_directory_deep_def rglob_walk_world
    by (simp add: process_paths_modified
          [where rewriter = "replace_deep_imports_in_file (posix_relpath ''/'')", OF ex(2) reg rw]
        rel process_paths_skip ex initial_stats_def walk_world_after_def
        del: process_paths.simps(2))
qed


theorem excluded_files_never_processed_witness:
  \<open>excluded vendored_ts
   \<and> vendored_ts \<in> set (rglob walk_world SRC_DIR)
   \<and> regular walk_world vendored_ts
   \<and> process_directory_deep (posix_relpath ''/'') SRC_DIR walk_world
       = (Inr \<lparr>files_processed = 1, files_modified = 1, total_replacements = 1, errors = []\<rparr>,
          walk_world_after)
   \<and> text_of walk_world_after vendored_ts = Some ''import { x } from "@ankaa/types/user"''
   \<and> vendored_ts \<notin> fst ` set (drop (length (opened walk_world)) (opened walk_world_after))\<close>
proof -
  have ex: "excluded vendored_ts"
    by (simp add: excluded_def vendored_ts_def SRC_DIR_def WEB_DIR_def
      truediv_def parse_path_def join_def fspath_def lstrip_sep_def parts_def)
  have t: \<open>text_of walk_world vendored_ts = Some ''import { x } from "@ankaa/types/user"''\<close>
    and reg: "regular walk_world vendored_ts"
    by (simp_all add: walk_world_def)
  have mem: "vendored_ts \<in> set (rglob walk_world SRC_DIR)"
    unfolding rglob_walk_world by simp
  from excluded_files_never_processed [of vendored_ts "posix_relpath ''/''" SRC_DIR walk_world
        "Inr \<lparr>files_processed = 1, files_modified = 1, total_replacements = 1, errors = []\<rparr>"
        walk_world_after] ex walk_world_run
  have "text_of walk_world_after vendored_ts = text_of walk_world vendored_ts
      \<and> vendored_ts \<notin> fst ` set (drop (length (opened walk_world)) (opened walk_world_after))"
    by blast
  with t have
    \<open>text_of walk_world_after vendored_ts = Some ''import { x } from "@ankaa/types/user"''\<close>
    "vendored_ts \<notin> fst ` set (drop (length (opened walk_world)) (opened walk_world_after))"
    by simp_all
  with ex mem reg walk_world_run show ?thesis by blast
qed

text \<open>The error list of the statistics is empty after every walk.\<close>

lemma process_directory_errors:
  "(process_directory relpath directory w = (Inr st, w') \<longrightarrow> errors st = [])
   \<and> (process_directory_deep relpath directory w = (Inr st, w') \<longrightarrow> errors st = [])"
  using process_paths_count [of "replace_imports_content relpath" "rglob w directory" initial_stats w st w']
    process_paths_count [of "replace_deep_imports_content relpath" "rglob w directory" initial_stats w st w']
  by (simp add: process_directory_def process_directory_deep_def replace_imports_in_file_def
      replace_deep_imports_in_file_def initial_stats_def)

lemma button_not_excluded: "\<not> excluded button_ts"
  by (simp add: excluded_def button_ts_def SRC_DIR_def WEB_DIR_def
      truediv_def parse_path_def join_def fspath_def lstrip_sep_def parts_def)

definition broken_ts :: path where
  "broken_ts = truediv SRC_DIR ''broken.ts''"

definition broken_world :: world where
  \<open>broken_world =
     \<lparr>tree = [broken_ts, button_ts], present = (\<lambda>p. True), regular = (\<lambda>p. True),
      text_of = (\<lambda>p. if p = button_ts then Some ''import { x } from "@ankaa/types/user"''
                      else None),
      write_outcome = (\<lambda>p. Written), opened = [], console = []\<rparr>\<close>

definition broken_world_after :: world where
  \<open>broken_world_after =
     print (Imports_replaced (Path [] [''src'', ''components'', ''widgets'', ''Button.ts'']) 1)
       (write_text button_ts ''import { x } from "../../types/user"''
         (open_file button_ts Writing
           (open_file button_ts Reading
             (print (Error_reading broken_ts) (open_file broken_ts Reading broken_world)))))\<close>

lemma rglob_broken_world: "rglob broken_world SRC_DIR = [broken_ts, button_ts]"
  by (simp add: rglob_def broken_world_def button_ts_def broken_ts_def SRC_DIR_def WEB_DIR_def
      truediv_def parse_path_def join_def fspath_def lstrip_sep_def parts_def strict_prefix_def)

lemma broken_not_excluded: "\<not> excluded broken_ts"
  by (simp add: excluded_def broken_ts_def SRC_DIR_def WEB_DIR_def
      truediv_def parse_path_def join_def fspath_def lstrip_sep_def parts_def)

lemma button_relative_to_WEB_DIR:
  "relative_to button_ts WEB_DIR = Inr (Path [] [''src'', ''components'', ''widgets'', ''Button.ts''])"
  by (simp add: relative_to_def button_ts_def SRC_DIR_def WEB_DIR_def
      truediv_def parse_path_def join_def fspath_def lstrip_sep_def parts_def)

text \<open>
  Claim C7 is not what the code does: nothing is ever added to the error list.  In the
  tree below the first file cannot be read and the second holds a deep import.  The
  read error is printed, the file is skipped and the walk goes on to rewrite the second
  file; but the statistics come back with an empty error list, and the run prints the
  three counts and no list of errors.
\<close>

theorem read_error_not_recorded:
  \<open>process_directory_deep (posix_relpath ''/'') SRC_DIR broken_world
     = (Inr \<lparr>files_processed = 2, files_modified = 1, total_replacements = 1, errors = []\<rparr>,
        broken_world_after)
   \<and> present broken_world SRC_DIR
   \<and> text_of broken_world broken_ts = None
   \<and> console (snd (main_deep (posix_relpath ''/'') broken_world))
       = [Error_reading broken_ts,
          Imports_replaced (Path [] [''src'', ''components'', ''widgets'', ''Button.ts'']) 1,
          Files_processed 2, Files_modified 1, Total_replacements 1]\<close>
proof -
  let ?rw = "replace_deep_imports_in_file (posix_relpath ''/'')"
  let ?w1 = "print (Error_reading broken_ts) (open_file broken_ts Reading broken_world)"
  have pres: "present broken_world SRC_DIR" and none: "text_of broken_world broken_ts = None"
    and reg: "regular broken_world broken_ts"
    by (simp_all add: broken_world_def button_ts_def broken_ts_def SRC_DIR_def WEB_DIR_def
      truediv_def parse_path_def join_def fspath_def lstrip_sep_def)
  have w1: \<open>text_of ?w1 button_ts = Some ''import { x } from "@ankaa/types/user"''\<close>
    "write_outcome ?w1 button_ts = Written" "regular ?w1 button_ts"
    by (simp_all add: broken_world_def print_def open_file_def)
  have r1: "?rw broken_ts broken_world = ((False, 0), ?w1)"
    unfolding replace_deep_imports_in_file_def using none by (rule rewrite_file_unreadable)
  have r2: \<open>?rw button_ts ?w1
     = ((True, 1), write_text button_ts ''import { x } from "../../types/user"''
         (open_file button_ts Writing (open_file button_ts Reading ?w1)))\<close>
    unfolding replace_deep_imports_in_file_def
    by (rule rewrite_file_modified
          [where rewrite = "replace_deep_imports_content (posix_relpath ''/'')",
            OF w1(1) button_deep _ w1(2)]) simp
  have walk: "process_directory_deep (posix_relpath ''/'') SRC_DIR broken_world
     = (Inr \<lparr>files_processed = 2, files_modified = 1, total_replacements = 1, errors = []\<rparr>,
        broken_world_after)"
    unfolding process_directory_deep_def rglob_broken_world
    by (simp add: process_paths_unmodified [where rewriter = ?rw, OF broken_not_excluded reg r1]
          process_paths_modified [where rewriter = ?rw, OF button_not_excluded w1(3) r2]
          button_relative_to_WEB_DIR initial_stats_def broken_world_after_def
        del: process_paths.simps(2))
  have "console (snd (main_deep (posix_relpath ''/'') broken_world))
       = [Error_reading broken_ts,
          Imports_replaced (Path [] [''src'', ''components'', ''widgets'', ''Button.ts'']) 1,
          Files_processed 2, Files_modified 1, Total_replacements 1]"
    by (simp add: main_deep_def pres walk print_summary_def)
       (simp add: broken_world_after_def print_def open_file_def write_text_def broken_world_def)
  with walk pres none show ?thesis by blast
qed

section \<open>Properties of the rewriters on a file's text\<close>

text \<open>The relative path that replaces a reference to \<open>sub\<close> inside \<open>package\<close>.\<close>

definition rel_path_for :: "relpath_fn \<Rightarrow> path \<Rightarrow> string \<Rightarrow> string \<Rightarrow> string" where
  "rel_path_for relpath file_path package sub =
     (if lstrip_sep sub \<noteq> []
      then get_relative_path_deep relpath file_path package (lstrip_sep sub)
      else get_relative_path_deep relpath file_path package [])"

lemma startswith_dots: "startswith s ''..'' \<Longrightarrow> s \<noteq> [] \<and> hd s = CHR ''.''"
  by (cases s) simp_all

lemma package_head: "package \<in> set PACKAGES \<Longrightarrow> package \<noteq> [] \<and> hd package \<noteq> CHR ''@''"
  by (auto simp: PACKAGES_def)

lemma explicit_head:
  "(let rel_path' = replace_backslashes rel_path
    in if \<not> startswith rel_path' ''..'' then ''./'' @ rel_path' else rel_path') = t
   \<Longrightarrow> t \<noteq> [] \<and> hd t \<noteq> CHR ''@''"
  by (auto simp: Let_def dest: startswith_dots split: if_splits)

lemma get_relative_path_head:
  assumes "package \<in> set PACKAGES"
  shows "get_relative_path relpath file_path package \<noteq> []
         \<and> hd (get_relative_path relpath file_path package) \<noteq> CHR ''@''"
proof (cases "relpath (fspath (truediv SRC_DIR package)) (fspath (parent file_path))")
  case (Inl e)
  then have "get_relative_path relpath file_path package = package"
    by (cases e) (simp add: get_relative_path_def)
  with package_head [OF assms] show ?thesis by simp
next
  case (Inr r)
  then show ?thesis
    using explicit_head [of r, OF refl] by (simp add: get_relative_path_def)
qed

lemma get_relative_path_deep_head:
  assumes "package \<in> set PACKAGES"
  shows "get_relative_path_deep relpath file_path package sub_path \<noteq> []
         \<and> hd (get_relative_path_deep relpath file_path package sub_path) \<noteq> CHR ''@''"
proof (cases "relpath (fspath (if sub_path \<noteq> [] then truediv (truediv SRC_DIR package) sub_path
                                else truediv SRC_DIR package)) (fspath (parent file_path))")
  case (Inl e)
  then have "get_relative_path_deep relpath file_path package sub_path
               = (if sub_path \<noteq> [] then package @ ''/'' @ sub_path else package)"
    by (cases e) (simp add: get_relative_path_deep_def)
  with package_head [OF assms] show ?thesis by simp
next
  case (Inr r)
  then show ?thesis
    using explicit_head [of r, OF refl] by (simp add: get_relative_path_deep_def)
qed

lemma match_lit_at_sign: "t \<noteq> [] \<Longrightarrow> hd t \<noteq> CHR ''@'' \<Longrightarrow> match_lit (''@ankaa/'' @ q) t = None"
  by (cases t) simp_all

lemma match_simple_without_at:
  assumes "match_from s0 = Some (pre, r0)" "t \<noteq> []" "hd t \<noteq> CHR ''@''"
  shows "match_simple q (pre @ t) = None"
  using match_from_stable [OF assms(1), of t] match_lit_at_sign [OF assms(2,3), of q]
  by (simp add: match_simple_def del: match_lit.simps)

lemma match_deep_without_at:
  assumes "match_from_or_import s0 = Some (pre, r0)" "t \<noteq> []" "hd t \<noteq> CHR ''@''"
  shows "match_deep q (pre @ t) = None"
  using first_group_stable [OF assms(1), of t] match_lit_at_sign [OF assms(2,3), of q]
  by (simp add: match_deep_def del: match_lit.simps)

lemma sub_simple_head:
  assumes "match_simple package s = Some m"
  shows "sub_simple package rel_path s
           = prefix_group m @ rel_path @ suffix_group m @ sub_simple package rel_path (rest m)"
proof -
  from match_simple_Some [OF assms] have "s \<noteq> []" by auto
  then obtain c cs where "s = c # cs" by (auto simp: neq_Nil_conv)
  with assms show ?thesis by simp
qed

text \<open>
  The text that a rewriter puts in place of a match is not matched by any pattern,
  whatever follows it.
\<close>

lemma replacement_not_matched:
  assumes "package \<in> set PACKAGES"
  shows "(match_simple package s = Some m \<longrightarrow>
            sub_simple package (get_relative_path relpath file_path package) s
              = prefix_group m @ get_relative_path relpath file_path package @ suffix_group m
                  @ sub_simple package (get_relative_path relpath file_path package) (rest m)
            \<and> (\<forall>q r. match_simple q
                  (prefix_group m @ get_relative_path relpath file_path package
                     @ suffix_group m @ r) = None))
       \<and> (match_deep package s = Some m \<longrightarrow>
            deep_match_step relpath file_path package (s, n) m
              = (new_text_deep relpath file_path package m @ rest m, n + 1)
            \<and> (\<forall>q r. match_deep q (new_text_deep relpath file_path package m @ r) = None))"
proof (intro conjI impI allI)
  assume a: "match_simple package s = Some m"
  then show "sub_simple package (get_relative_path relpath file_path package) s
              = prefix_group m @ get_relative_path relpath file_path package @ suffix_group m
                  @ sub_simple package (get_relative_path relpath file_path package) (rest m)"
    by (rule sub_simple_head)
  fix q r
  from a obtain pre r0 where fg: "match_from s = Some (pre, r0)" and p: "prefix_group m = pre"
    by (rule match_simple_shape) simp
  let ?t = "get_relative_path relpath file_path package @ suffix_group m @ r"
  have "?t \<noteq> [] \<and> hd ?t \<noteq> CHR ''@''"
    using get_relative_path_head [OF assms, of relpath file_path] by simp
  then show "match_simple q (prefix_group m @ ?t) = None"
    using match_simple_without_at [OF fg, of ?t q] p by simp
next
  assume a: "match_deep package s = Some m"
  then show "deep_match_step relpath file_path package (s, n) m
              = (new_text_deep relpath file_path package m @ rest m, n + 1)"
    by (rule deep_match_step_head)
  fix q r
  from a obtain pre r0 where fg: "match_from_or_import s = Some (pre, r0)"
    and p: "prefix_group m = pre"
    by (cases rule: match_deep_shape) simp_all
  obtain rel where nt: "new_text_deep relpath file_path package m = pre @ rel @ suffix_group m"
    and rel: "rel \<noteq> [] \<and> hd rel \<noteq> CHR ''@''"
    using get_relative_path_deep_head [OF assms, of relpath file_path] p
    by (simp add: new_text_deep_def Let_def)
  have "(rel @ suffix_group m @ r) \<noteq> [] \<and> hd (rel @ suffix_group m @ r) \<noteq> CHR ''@''"
    using rel by simp
  then show "match_deep q (new_text_deep relpath file_path package m @ r) = None"
    using match_deep_without_at [OF fg, of "rel @ suffix_group m @ r" q] nt by simp
qed


text \<open>
  A package name is plain when it holds neither the letter \<open>f\<close> nor a quote; every
  configured name is.  A text is free of \<open>f\<close> when no match can start in it.
\<close>

definition plain_name :: "string \<Rightarrow> bool" where
  "plain_name q = (CHR ''f'' \<notin> set q \<and> list_all (\<lambda>c. \<not> is_quote c) q)"

lemma PACKAGES_plain: "q \<in> set PACKAGES \<Longrightarrow> plain_name q"
  by (auto simp: PACKAGES_def plain_name_def is_quote_def)

lemma match_from_head: "match_from s = Some (pre, r) \<Longrightarrow> \<exists>u. pre = CHR ''f'' # u \<and> CHR ''f'' \<notin> set u"
proof (erule match_from_shape)
  fix ws q
  assume p: "pre = ''from'' @ ws @ [q]" and ws: "list_all is_space ws" and q: "is_quote q"
  have "CHR ''f'' \<notin> set ws" using ws by (auto simp: list_all_iff is_space_def)
  moreover have "q \<noteq> CHR ''f''" using q by (auto simp: is_quote_def)
  ultimately show ?thesis using p by simp
qed

lemma match_simple_head:
  assumes "match_simple q s = Some m" "plain_name q"
  shows "\<exists>u. group0 m = CHR ''f'' # u \<and> CHR ''f'' \<notin> set u"
  using assms(1)
proof (rule match_simple_shape)
  fix pre r0 c r
  assume a: "match_from s = Some (pre, r0)" and c: "is_quote c"
    and m: "m = \<lparr>group0 = pre @ ''@ankaa/'' @ q @ [c], prefix_group = pre,
                  sub_path_group = None, suffix_group = [c], rest = r\<rparr>"
  from match_from_head [OF a] obtain u where u: "pre = CHR ''f'' # u" "CHR ''f'' \<notin> set u"
    by blast
  have "c \<noteq> CHR ''f''" using c by (auto simp: is_quote_def)
  with u assms(2) have "group0 m = CHR ''f'' # (u @ ''@ankaa/'' @ q @ [c])
      \<and> CHR ''f'' \<notin> set (u @ ''@ankaa/'' @ q @ [c])"
    by (simp add: m plain_name_def)
  then show ?thesis by blast
qed

lemma match_simple_needs_f: "s = [] \<or> hd s \<noteq> CHR ''f'' \<Longrightarrow> match_simple q s = None"
  by (cases s) (auto simp: match_simple_def match_from_def)

text \<open>Where no \<open>f\<close> stands, nothing is found and nothing is substituted.\<close>

lemma findall_simple_skip:
  "CHR ''f'' \<notin> set u \<Longrightarrow> findall_simple q (u @ z) = findall_simple q z"
proof (induction u)
  case Nil
  then show ?case by simp
next
  case (Cons c u)
  then have "match_simple q (c # u @ z) = None"
    by (intro match_simple_needs_f) auto
  with Cons show ?case by simp
qed

lemma sub_simple_skip:
  "CHR ''f'' \<notin> set u \<Longrightarrow> sub_simple p rel (u @ z) = u @ sub_simple p rel z"
proof (induction u)
  case Nil
  then show ?case by simp
next
  case (Cons c u)
  then have "match_simple p (c # u @ z) = None"
    by (intro match_simple_needs_f) auto
  with Cons show ?case by simp
qed


lemma prefix_no_f: "CHR ''f'' \<notin> set u \<Longrightarrow> prefix u (CHR ''f'' # z) \<longleftrightarrow> u = []"
  by (cases u) auto

lemma sub_simple_prefix:
  "CHR ''f'' \<notin> set u \<Longrightarrow> prefix u (sub_simple p rel xs) \<longleftrightarrow> prefix u xs"
proof (induction p rel xs arbitrary: u rule: sub_simple.induct)
  case (1 package rel_path)
  then show ?case by simp
next
  case (2 package rel_path c cs)
  show ?case
  proof (cases "match_simple package (c # cs)")
    case None
    show ?thesis
    proof (cases u)
      case Nil
      then show ?thesis by simp
    next
      case (Cons a u')
      with "2.prems" have "CHR ''f'' \<notin> set u'" by simp
      from "2.IH"(1) [OF None this] Cons None show ?thesis by simp
    qed
  next
    case (Some m)
    from Some obtain pre r0 where fg: "match_from (c # cs) = Some (pre, r0)"
      and p: "prefix_group m = pre"
      by (rule match_simple_shape) simp
    from match_from_head [OF fg] obtain v where v: "pre = CHR ''f'' # v" by blast
    from match_from_Some [OF fg] v have c: "c = CHR ''f''" by simp
    have "sub_simple package rel_path (c # cs)
            = CHR ''f'' # v @ rel_path @ suffix_group m @ sub_simple package rel_path (rest m)"
      using Some p v by simp
    with c "2.prems" show ?thesis by (simp add: prefix_no_f)
  qed
qed

lemma match_simple_transfer:
  assumes "match_simple q (x # a) = Some m" "plain_name q"
    and "\<And>u. CHR ''f'' \<notin> set u \<Longrightarrow> prefix u a \<Longrightarrow> prefix u b"
  shows "\<exists>r. match_simple q (x # b) = Some (m\<lparr>rest := r\<rparr>) \<and> x # b = group0 m @ r"
proof -
  from match_simple_head [OF assms(1,2)] obtain u where
    u: "group0 m = CHR ''f'' # u" "CHR ''f'' \<notin> set u"
    by blast
  from match_simple_Some [OF assms(1)] u have x: "x = CHR ''f''" and a: "a = u @ rest m"
    by simp_all
  have "prefix u b" using assms(3) [OF u(2)] a by simp
  then obtain r where b: "b = u @ r" by (auto simp: prefix_def)
  have "x # b = group0 m @ r" using x b u by simp
  with match_simple_stable [OF assms(1), of r] show ?thesis by auto
qed

lemma match_simple_sub_simple:
  assumes "plain_name q"
  shows "match_simple q (x # sub_simple p rel xs) = None \<longleftrightarrow> match_simple q (x # xs) = None"
proof -
  have "match_simple q (x # xs) \<noteq> None" if "match_simple q (x # sub_simple p rel xs) = Some m" for m
    using match_simple_transfer [OF that assms, of xs] sub_simple_prefix [of _ p rel xs]
    by auto
  moreover
  have "match_simple q (x # sub_simple p rel xs) \<noteq> None" if "match_simple q (x # xs) = Some m" for m
    using match_simple_transfer [OF that assms, of "sub_simple p rel xs"]
      sub_simple_prefix [of _ p rel xs]
    by auto
  ultimately show ?thesis by (metis not_Some_eq)
qed

text \<open>
  The text put in place of a match: after the opening quote comes the path, which is
  taken to hold no \<open>f\<close> and not to start with \<open>@\<close>.
\<close>

lemma findall_simple_block:
  assumes "match_from s0 = Some (pre, r0)" "is_quote c" "CHR ''f'' \<notin> set rel"
    "rel \<noteq> []" "hd rel \<noteq> CHR ''@''"
  shows "findall_simple q (pre @ rel @ [c] @ z) = findall_simple q z"
proof -
  from match_from_head [OF assms(1)] obtain v where v: "pre = CHR ''f'' # v" "CHR ''f'' \<notin> set v"
    by blast
  have "(rel @ [c] @ z) \<noteq> []" "hd (rel @ [c] @ z) \<noteq> CHR ''@''"
    using assms(4,5) by simp_all
  then have "match_simple q (pre @ rel @ [c] @ z) = None"
    by (rule match_simple_without_at [OF assms(1)])
  then have "findall_simple q (pre @ rel @ [c] @ z) = findall_simple q (v @ rel @ [c] @ z)"
    using v by simp
  also have "\<dots> = findall_simple q ((v @ rel @ [c]) @ z)" by simp
  also have "\<dots> = findall_simple q z"
  proof (rule findall_simple_skip)
    have "c \<noteq> CHR ''f''" using assms(2) by (auto simp: is_quote_def)
    then show "CHR ''f'' \<notin> set (v @ rel @ [c])" using v(2) assms(3) by simp
  qed
  finally show ?thesis .
qed

lemma sub_simple_match:
  assumes "match_simple p s = Some m"
  obtains pre r0 c where "match_from s = Some (pre, r0)" "is_quote c"
    "sub_simple p rel s = pre @ rel @ [c] @ sub_simple p rel (rest m)"
proof -
  from assms obtain pre r0 c r where fg: "match_from s = Some (pre, r0)" and c: "is_quote c"
    and m: "m = \<lparr>group0 = pre @ ''@ankaa/'' @ p @ [c], prefix_group = pre,
                  sub_path_group = None, suffix_group = [c], rest = r\<rparr>"
    by (rule match_simple_shape)
  have "sub_simple p rel s = pre @ rel @ [c] @ sub_simple p rel (rest m)"
    using sub_simple_head [OF assms, of rel] by (simp add: m)
  with fg c show ?thesis by (rule that)
qed

text \<open>After the substitution for a package its pattern is found nowhere.\<close>

lemma findall_simple_sub_simple_same:
  assumes "plain_name p" "CHR ''f'' \<notin> set rel" "rel \<noteq> []" "hd rel \<noteq> CHR ''@''"
  shows "findall_simple p (sub_simple p rel s) = []"
  using assms
proof (induction p rel s rule: sub_simple.induct)
  case (1 package rel_path)
  then show ?case by simp
next
  case (2 package rel_path c cs)
  show ?case
  proof (cases "match_simple package (c # cs)")
    case None
    then have "match_simple package (c # sub_simple package rel_path cs) = None"
      using match_simple_sub_simple [OF "2.prems"(1)] by simp
    moreover have "findall_simple package (sub_simple package rel_path cs) = []"
      using "2.IH"(1) [OF None "2.prems"] .
    ultimately show ?thesis using None by simp
  next
    case (Some m)
    from Some obtain pre r0 q where fg: "match_from (c # cs) = Some (pre, r0)" and q: "is_quote q"
      and s: "sub_simple package rel_path (c # cs)
                = pre @ rel_path @ [q] @ sub_simple package rel_path (rest m)"
      by (rule sub_simple_match)
    have "findall_simple package (sub_simple package rel_path (c # cs))
            = findall_simple package (sub_simple package rel_path (rest m))"
      unfolding s using fg q "2.prems"(2-4) by (rule findall_simple_block)
    also have "\<dots> = []" using "2.IH"(2) [OF Some "2.prems"] .
    finally show ?thesis .
  qed
qed

text \<open>Two plain names are not matched at the same place.\<close>

lemma quote_free_split:
  assumes "u @ a # r = v @ b # r'" "is_quote a" "is_quote b"
    "list_all (\<lambda>c. \<not> is_quote c) u" "list_all (\<lambda>c. \<not> is_quote c) v"
  shows "u = v"
proof -
  have "takeWhile (\<lambda>x. \<not> is_quote x) (u @ a # r) = u"
    using assms(2,4) by (rule takeWhile_no_quote [rotated])
  moreover have "takeWhile (\<lambda>x. \<not> is_quote x) (v @ b # r') = v"
    using assms(3,5) by (rule takeWhile_no_quote [rotated])
  ultimately show ?thesis using assms(1) by simp
qed

lemma match_simple_exclusive:
  assumes "match_simple p s = Some mp" "match_simple q s = Some mq" "plain_name p" "plain_name q"
  shows "p = q"
proof -
  from assms(1) obtain pre r0 c r where fg: "match_from s = Some (pre, r0)" and c: "is_quote c"
    and mp: "mp = \<lparr>group0 = pre @ ''@ankaa/'' @ p @ [c], prefix_group = pre,
                  sub_path_group = None, suffix_group = [c], rest = r\<rparr>"
    by (rule match_simple_shape)
  from assms(2) obtain pre' r0' c' r' where fg': "match_from s = Some (pre', r0')"
    and c': "is_quote c'"
    and mq: "mq = \<lparr>group0 = pre' @ ''@ankaa/'' @ q @ [c'], prefix_group = pre',
                  sub_path_group = None, suffix_group = [c'], rest = r'\<rparr>"
    by (rule match_simple_shape)
  from fg fg' have pre: "pre' = pre" by simp
  from match_simple_Some [OF assms(1)] match_simple_Some [OF assms(2)]
  have "p @ c # r = q @ c' # r'" by (simp add: mp mq pre)
  then show ?thesis
    using c c' assms(3,4) by (auto simp: plain_name_def intro: quote_free_split)
qed

text \<open>The substitution for one package changes no other package's number of matches.\<close>

lemma findall_simple_sub_simple_other:
  assumes "plain_name p" "plain_name q" "p \<noteq> q"
    "CHR ''f'' \<notin> set rel" "rel \<noteq> []" "hd rel \<noteq> CHR ''@''"
  shows "length (findall_simple q (sub_simple p rel s)) = length (findall_simple q s)"
proof (induction s rule: length_induct)
  case (1 s)
  show ?case
  proof (cases s)
    case Nil
    then show ?thesis by simp
  next
    case (Cons x xs)
    show ?thesis
    proof (cases "match_simple p s")
      case (Some mp)
      from Some obtain pre r0 c where fg: "match_from s = Some (pre, r0)" and c: "is_quote c"
        and sub: "sub_simple p rel s = pre @ rel @ [c] @ sub_simple p rel (rest mp)"
        by (rule sub_simple_match)
      have l: "findall_simple q (sub_simple p rel s)
                 = findall_simple q (sub_simple p rel (rest mp))"
        unfolding sub using fg c assms(4-6) by (rule findall_simple_block)
      from match_simple_head [OF Some assms(1)] obtain u where
        u: "group0 mp = CHR ''f'' # u" "CHR ''f'' \<notin> set u"
        by blast
      from match_simple_Some [OF Some] u Cons have xs: "xs = u @ rest mp" by simp
      have "match_simple q s = None"
        using match_simple_exclusive [OF Some _ assms(1,2)] assms(3) by (cases "match_simple q s") auto
      then have "findall_simple q s = findall_simple q xs" using Cons by simp
      also have "\<dots> = findall_simple q (rest mp)"
        unfolding xs using u(2) by (rule findall_simple_skip)
      finally have r: "findall_simple q s = findall_simple q (rest mp)" .
      have "length (rest mp) < length s" using Some by (rule match_simple_shorter)
      with "1.IH" l r show ?thesis by simp
    next
      case None
      then have sub: "sub_simple p rel s = x # sub_simple p rel xs" using Cons by simp
      show ?thesis
      proof (cases "match_simple q s")
        case nq: None
        then have "match_simple q (x # sub_simple p rel xs) = None"
          using match_simple_sub_simple [OF assms(2), of x p rel xs] Cons by simp
        then have "findall_simple q (sub_simple p rel s)
                     = findall_simple q (sub_simple p rel xs)"
          using sub by simp
        moreover have "findall_simple q s = findall_simple q xs" using nq Cons by simp
        moreover have "length xs < length s" using Cons by simp
        ultimately show ?thesis using "1.IH" by simp
      next
        case (Some mq)
        from match_simple_head [OF Some assms(2)] obtain u where
          u: "group0 mq = CHR ''f'' # u" "CHR ''f'' \<notin> set u"
          by blast
        from match_simple_Some [OF Some] u Cons have x: "x = CHR ''f''" and xs: "xs = u @ rest mq"
          by simp_all
        have "sub_simple p rel xs = u @ sub_simple p rel (rest mq)"
          unfolding xs using u(2) by (rule sub_simple_skip)
        then have "sub_simple p rel s = group0 mq @ sub_simple p rel (rest mq)"
          using sub x u by simp
        then have "match_simple q (sub_simple p rel s)
                     = Some (mq\<lparr>rest := sub_simple p rel (rest mq)\<rparr>)"
          using match_simple_stable [OF Some, of "sub_simple p rel (rest mq)"] by simp
        then have l: "findall_simple q (sub_simple p rel s)
                     = mq\<lparr>rest := sub_simple p rel (rest mq)\<rparr>
                         # findall_simple q (sub_simple p rel (rest mq))"
          using sub by simp
        have r: "findall_simple q s = mq # findall_simple q (rest mq)"
          using Some Cons by simp
        have "length (rest mq) < length s" using Some by (rule match_simple_shorter)
        with "1.IH" l r show ?thesis by simp
      qed
    qed
  qed
qed


text \<open>
  A relative path is clean when it holds no \<open>f\<close> and starts with something other than
  \<open>@\<close>.  The paths computed on a POSIX host for the configured packages are clean:
  they are made of \<open>..\<close>, of components of the source directory and of the package
  name.
\<close>

definition clean_path :: "string \<Rightarrow> bool" where
  "clean_path rel = (CHR ''f'' \<notin> set rel \<and> rel \<noteq> [] \<and> hd rel \<noteq> CHR ''@'')"

lemma simple_package_step_spec:
  assumes "plain_name p" "clean_path (get_relative_path relpath file_path p)"
    and "simple_package_step relpath file_path (c, t) p = (c', t')"
  shows "t' = t + length (findall_simple p c)"
    and "findall_simple p c' = []"
    and "plain_name q \<Longrightarrow> q \<noteq> p \<Longrightarrow> length (findall_simple q c') = length (findall_simple q c)"
proof -
  let ?rel = "get_relative_path relpath file_path p"
  have cl: "CHR ''f'' \<notin> set ?rel" "?rel \<noteq> []" "hd ?rel \<noteq> CHR ''@''"
    using assms(2) by (simp_all add: clean_path_def)
  show "t' = t + length (findall_simple p c)"
    using assms(3) by (auto simp: simple_package_step_def Let_def split: if_splits)
  show "findall_simple p c' = []"
  proof (cases "findall_simple p c = []")
    case True
    with assms(3) show ?thesis by (simp add: simple_package_step_def)
  next
    case False
    with assms(3) have "c' = sub_simple p ?rel c"
      by (simp add: simple_package_step_def Let_def)
    then show ?thesis using findall_simple_sub_simple_same [OF assms(1) cl] by simp
  qed
  show "length (findall_simple q c') = length (findall_simple q c)"
    if "plain_name q" "q \<noteq> p"
  proof (cases "findall_simple p c = []")
    case True
    with assms(3) show ?thesis by (simp add: simple_package_step_def)
  next
    case False
    with assms(3) have "c' = sub_simple p ?rel c"
      by (simp add: simple_package_step_def Let_def)
    then show ?thesis
      using findall_simple_sub_simple_other [OF assms(1) that(1) _ cl] that(2) by auto
  qed
qed

lemma foldl_simple_package_step:
  assumes "distinct ps" "\<forall>p \<in> set ps. plain_name p"
    "\<forall>p \<in> set ps. clean_path (get_relative_path relpath file_path p)"
    "foldl (simple_package_step relpath file_path) (c, t) ps = (c', t')"
  shows "t' = t + sum_list (map (\<lambda>p. length (findall_simple p c)) ps)
       \<and> (\<forall>p \<in> set ps. findall_simple p c' = [])
       \<and> (\<forall>q. plain_name q \<and> q \<notin> set ps
              \<longrightarrow> length (findall_simple q c') = length (findall_simple q c))"
  using assms
proof (induction ps arbitrary: c t)
  case Nil
  then show ?case by simp
next
  case (Cons p ps)
  obtain c1 t1 where step: "simple_package_step relpath file_path (c, t) p = (c1, t1)"
    by (metis surj_pair)
  have pl: "plain_name p" and cl: "clean_path (get_relative_path relpath file_path p)"
    using Cons.prems(2,3) by simp_all
  note sp = simple_package_step_spec [OF pl cl step]
  have rest: "foldl (simple_package_step relpath file_path) (c1, t1) ps = (c', t')"
    using Cons.prems(4) step by simp
  have ih: "t' = t1 + sum_list (map (\<lambda>p. length (findall_simple p c1)) ps)
       \<and> (\<forall>p \<in> set ps. findall_simple p c' = [])
       \<and> (\<forall>q. plain_name q \<and> q \<notin> set ps
              \<longrightarrow> length (findall_simple q c') = length (findall_simple q c1))"
    using Cons.IH [OF _ _ _ rest] Cons.prems(1-3) by simp
  have same: "length (findall_simple q c1) = length (findall_simple q c)" if "q \<in> set ps" for q
    using sp(3) [of q] that Cons.prems(1,2) by auto
  have "map (\<lambda>p. length (findall_simple p c1)) ps = map (\<lambda>p. length (findall_simple p c)) ps"
    using same by simp
  then have "sum_list (map (\<lambda>p. length (findall_simple p c1)) ps)
               = sum_list (map (\<lambda>p. length (findall_simple p c)) ps)"
    by (rule arg_cong)
  then have total: "t' = t + sum_list (map (\<lambda>p. length (findall_simple p c)) (p # ps))"
    using ih sp(1) by simp
  have "length (findall_simple p c') = length (findall_simple p c1)"
    using ih pl Cons.prems(1) by simp
  then have gone: "findall_simple p c' = []" using sp(2) by simp
  have other: "length (findall_simple q c') = length (findall_simple q c)"
    if "plain_name q" "q \<notin> set (p # ps)" for q
    using ih sp(3) [of q] that by simp
  show ?case using total gone ih other by simp
qed

text \<open>
  The rewriter of \<open>replace-imports.py\<close>, for clean paths: the count is the number of
  matches in the original text, over all packages; the text returned holds no match;
  rewriting it again changes nothing.
\<close>

lemma replace_imports_content_count:
  assumes "\<forall>p \<in> set PACKAGES. clean_path (get_relative_path relpath file_path p)"
  shows "snd (replace_imports_content relpath file_path c)
           = sum_list (map (\<lambda>p. length (findall_simple p c)) PACKAGES)"
    and "\<forall>p \<in> set PACKAGES.
           findall_simple p (fst (replace_imports_content relpath file_path c)) = []"
proof -
  obtain c' t' where r: "replace_imports_content relpath file_path c = (c', t')"
    by (metis surj_pair)
  have d: "distinct PACKAGES" by (simp add: PACKAGES_def)
  have "foldl (simple_package_step relpath file_path) (c, 0) PACKAGES = (c', t')"
    using r by (simp add: replace_imports_content_def)
  from foldl_simple_package_step [OF d _ assms this] PACKAGES_plain
  have "t' = 0 + sum_list (map (\<lambda>p. length (findall_simple p c)) PACKAGES)
       \<and> (\<forall>p \<in> set PACKAGES. findall_simple p c' = [])"
    by blast
  with r show "snd (replace_imports_content relpath file_path c)
           = sum_list (map (\<lambda>p. length (findall_simple p c)) PACKAGES)"
    and "\<forall>p \<in> set PACKAGES.
           findall_simple p (fst (replace_imports_content relpath file_path c)) = []"
    by simp_all
qed

lemma replace_imports_content_idempotent:
  assumes "\<forall>p \<in> set PACKAGES. clean_path (get_relative_path relpath file_path p)"
  shows "replace_imports_content relpath file_path
           (fst (replace_imports_content relpath file_path c))
         = (fst (replace_imports_content relpath file_path c), 0)"
  using replace_imports_content_count(2) [OF assms, of c]
  by (simp add: replace_imports_content_def [of _ _ "fst _"] foldl_simple_no_match)



lemma posix_relpath_no_f:
  assumes "\<forall>x \<in> set (tail_list (abspath cwd path)). CHR ''f'' \<notin> set x"
    and "posix_relpath cwd path start = Inr r"
  shows "CHR ''f'' \<notin> set r"
proof -
  define start_list where "start_list = tail_list (abspath cwd start)"
  define path_list where "path_list = tail_list (abspath cwd path)"
  define i where "i = commonprefix_len start_list path_list"
  define rel_list where "rel_list = replicate (length start_list - i) ''..'' @ drop i path_list"
  have "posix_relpath cwd path start
          = (if path = [] then Inl ValueError
             else if rel_list = [] then Inr ''.'' else Inr (join_sep rel_list))"
    unfolding posix_relpath_def Let_def rel_list_def i_def path_list_def start_list_def ..
  with assms(2) have r: "r = (if rel_list = [] then ''.'' else join_sep rel_list)"
    by (simp split: if_splits)
  have "CHR ''f'' \<notin> set x" if "x \<in> set rel_list" for x
  proof -
    from that have "x = ''..'' \<or> x \<in> set (drop i path_list)"
      by (auto simp: rel_list_def)
    then have "x = ''..'' \<or> x \<in> set path_list"
      using in_set_dropD [of x i path_list] by blast
    then show ?thesis using assms(1) by (auto simp: path_list_def)
  qed
  then have "CHR ''f'' \<notin> set (join_sep rel_list)"
    using join_sep_chars [of rel_list] by auto
  then show ?thesis using r by simp
qed

lemma posix_paths_clean:
  assumes "p \<in> set PACKAGES"
  shows "clean_path (get_relative_path (posix_relpath cwd) file_path p)"
proof -
  let ?t = "fspath (truediv SRC_DIR p)" and ?d = "fspath (parent file_path)"
  from posix_relpath_returns [OF fspath_nonempty, of cwd "truediv SRC_DIR p" ?d]
  obtain r where r: "posix_relpath cwd ?t ?d = Inr r" by blast
  have "\<forall>x \<in> set (tail_list (abspath cwd ?t)). CHR ''f'' \<notin> set x"
    using PACKAGES_plain [OF assms] by (simp add: package_target_list [OF assms] plain_name_def)
  from posix_relpath_no_f [OF this r] have "CHR ''f'' \<notin> set r" .
  then have "CHR ''f'' \<notin> set (get_relative_path (posix_relpath cwd) file_path p)"
    using r by (auto simp: get_relative_path_def replace_backslashes_def Let_def)
  with get_relative_path_head [OF assms, of "posix_relpath cwd" file_path]
  show ?thesis by (simp add: clean_path_def)
qed

text \<open>
  Claim C4.  The text that a rewriter puts in place of a match is not matched again:
  in \<open>replace-imports.py\<close> the substitution replaces a match at the head of a text by
  its first group, the relative path and its last group, and no package's pattern
  matches a text that starts with these; in \<open>replace-imports-deep.py\<close> the step
  on a match at the head of the content replaces it by \<open>new_text\<close>, and no package's
  deep pattern matches a text that starts with \<open>new_text\<close>.  On a POSIX host the
  rewriter of \<open>replace-imports.py\<close>, run on its own result, finds no match at all and
  returns the text unchanged with count 0.
\<close>

theorem converted_reference_not_rematched:
  assumes "package \<in> set PACKAGES"
  shows "(match_simple package s = Some m \<longrightarrow>
            sub_simple package (get_relative_path relpath file_path package) s
              = prefix_group m @ get_relative_path relpath file_path package @ suffix_group m
                  @ sub_simple package (get_relative_path relpath file_path package) (rest m)
            \<and> (\<forall>q r. match_simple q
                  (prefix_group m @ get_relative_path relpath file_path package
                     @ suffix_group m @ r) = None))
       \<and> (match_deep package s = Some m \<longrightarrow>
            deep_match_step relpath file_path package (s, n) m
              = (new_text_deep relpath file_path package m @ rest m, n + 1)
            \<and> (\<forall>q r. match_deep q (new_text_deep relpath file_path package m @ r) = None))
       \<and> replace_imports_content (posix_relpath cwd) file_path
            (fst (replace_imports_content (posix_relpath cwd) file_path content))
          = (fst (replace_imports_content (posix_relpath cwd) file_path content), 0)"
proof -
  have "replace_imports_content (posix_relpath cwd) file_path
            (fst (replace_imports_content (posix_relpath cwd) file_path content))
          = (fst (replace_imports_content (posix_relpath cwd) file_path content), 0)"
    by (rule replace_imports_content_idempotent) (simp add: posix_paths_clean)
  with replacement_not_matched [OF assms, of s m relpath file_path n]
  show ?thesis by blast
qed

theorem converted_reference_not_rematched_witness:
  \<open>''types'' \<in> set PACKAGES
   \<and> match_deep ''types'' ''from "@ankaa/types/user";''
       = Some \<lparr>group0 = ''from "@ankaa/types/user"'', prefix_group = ''from "'',
                sub_path_group = Some ''/user'', suffix_group = ''"'', rest = '';''\<rparr>
   \<and> deep_match_step (posix_relpath ''/'') button_ts ''types'' (''from "@ankaa/types/user";'', 0)
         \<lparr>group0 = ''from "@ankaa/types/user"'', prefix_group = ''from "'',
          sub_path_group = Some ''/user'', suffix_group = ''"'', rest = '';''\<rparr>
       = (''from "../../types/user";'', 1)
   \<and> list_all (\<lambda>q. match_deep q ''from "../../types/user";'' = None) PACKAGES
   \<and> match_simple ''types'' ''from "@ankaa/types";''
       = Some \<lparr>group0 = ''from "@ankaa/types"'', prefix_group = ''from "'',
                sub_path_group = None, suffix_group = ''"'', rest = '';''\<rparr>
   \<and> sub_simple ''types'' (get_relative_path (posix_relpath ''/'') button_ts ''types'')
         ''from "@ankaa/types";'' = ''from "../../types";''
   \<and> list_all (\<lambda>q. match_simple q ''from "../../types";'' = None) PACKAGES
   \<and> replace_imports_content (posix_relpath ''/'') button_ts ''from "@ankaa/types";''
       = (''from "../../types";'', 1)
   \<and> replace_imports_content (posix_relpath ''/'') button_ts ''from "../../types";''
       = (''from "../../types";'', 0)\<close>
proof -
  let ?md = \<open>\<lparr>group0 = ''from "@ankaa/types/user"'', prefix_group = ''from "'',
                sub_path_group = Some ''/user'', suffix_group = ''"'', rest = '';''\<rparr>\<close>
  let ?ms = \<open>\<lparr>group0 = ''from "@ankaa/types"'', prefix_group = ''from "'',
                sub_path_group = None, suffix_group = ''"'', rest = '';''\<rparr>\<close>
  have p: "''types'' \<in> set PACKAGES" by (simp add: PACKAGES_def)
  have md: \<open>match_deep ''types'' ''from "@ankaa/types/user";'' = Some ?md\<close>
    by code_simp
  have ms: \<open>match_simple ''types'' ''from "@ankaa/types";'' = Some ?ms\<close>
    by code_simp
  have ntd: \<open>new_text_deep (posix_relpath ''/'') button_ts ''types'' ?md
               = ''from "../../types/user"''\<close>
    by code_simp
  have rel: "get_relative_path (posix_relpath ''/'') button_ts ''types'' = ''../../types''"
    by code_simp
  note t = converted_reference_not_rematched [OF p, of \<open>''from "@ankaa/types/user";''\<close> ?md
      "posix_relpath ''/''" button_ts 0 "''/''" \<open>''from "@ankaa/types";''\<close>]
  note d = t [THEN conjunct2, THEN conjunct1, THEN mp, OF md]
  note i = t [THEN conjunct2, THEN conjunct2]
  note s = converted_reference_not_rematched [OF p, of \<open>''from "@ankaa/types";''\<close> ?ms
      "posix_relpath ''/''" button_ts 0 "''/''" "[]", THEN conjunct1, THEN mp, OF ms]
  from d [THEN conjunct1] ntd have d1: \<open>deep_match_step (posix_relpath ''/'') button_ts ''types''
        (''from "@ankaa/types/user";'', 0) ?md = (''from "../../types/user";'', 1)\<close>
    by simp
  from d [THEN conjunct2] ntd
  have d2: \<open>\<forall>q r. match_deep q (''from "../../types/user"'' @ r) = None\<close>
    by simp
  have tail: "sub_simple ''types'' ''../../types'' '';'' = '';''"
    by code_simp
  from s [THEN conjunct1] rel tail have s1: \<open>sub_simple ''types''
        (get_relative_path (posix_relpath ''/'') button_ts ''types'') ''from "@ankaa/types";''
         = ''from "../../types";''\<close>
    by (simp del: sub_simple.simps)
  from s [THEN conjunct2] rel
  have s2: \<open>\<forall>q r. match_simple q (''from "../../types"'' @ r) = None\<close>
    by simp
  from d2 have d3: \<open>list_all (\<lambda>q. match_deep q ''from "../../types/user";'' = None) PACKAGES\<close>
    by (simp add: list_all_iff)
  from s2 have s3: \<open>list_all (\<lambda>q. match_simple q ''from "../../types";'' = None) PACKAGES\<close>
    by (simp add: list_all_iff)
  have once: \<open>replace_imports_content (posix_relpath ''/'') button_ts ''from "@ankaa/types";''
       = (''from "../../types";'', 1)\<close>
    by code_simp
  from i once
  have twice: \<open>replace_imports_content (posix_relpath ''/'') button_ts ''from "../../types";''
       = (''from "../../types";'', 0)\<close>
    by simp
  from p md d1 d3 ms s1 s3 once twice show ?thesis by blast
qed

text \<open>
  Claim C3 is not what the deep rewriter does on every text.  In the first text below
  the sub-path of the first match ends with \<open>from\<close> and a blank, and its closing quote
  stands before something that reads like a reference.  Once the first match is
  rewritten, the text of the second match occurs earlier than the match itself, and
  \<open>replace\<close> substitutes that earlier occurrence: the reference that was matched
  stays as it was.  In the second text the only match in the original content is one
  of \<open>constants\<close>; dropping the trailing slash of its sub-path makes the rewritten
  content hold a match of \<open>types\<close>, and the count returned is 2.  The rewriter of
  \<open>replace-imports.py\<close> substitutes the matched spans themselves and counts the matches
  of the original text (\<open>replace_imports_content_count\<close>).
\<close>

theorem first_occurrence_replaced:
  \<open>map group0 (finditer_deep ''types''
       ''from "@ankaa/types/x/from "@ankaa/types/zzz"; from "@ankaa/types/zzz"'')
     = [''from "@ankaa/types/x/from "'', ''from "@ankaa/types/zzz"'']
   \<and> map rest (finditer_deep ''types''
       ''from "@ankaa/types/x/from "@ankaa/types/zzz"; from "@ankaa/types/zzz"'')
     = [''@ankaa/types/zzz"; from "@ankaa/types/zzz"'', []]
   \<and> replace_deep_imports_content (posix_relpath ''/'') a_ts
       ''from "@ankaa/types/x/from "@ankaa/types/zzz"; from "@ankaa/types/zzz"''
     = (''from "./types/x/from "./types/zzz"; from "@ankaa/types/zzz"'', 2)
   \<and> map (\<lambda>package. length (finditer_deep package
            ''from "@ankaa/constants/y/from /"@ankaa/types"'')) PACKAGES
     = [1, 0, 0, 0, 0, 0]
   \<and> replace_deep_imports_content (posix_relpath ''/'') a_ts
       ''from "@ankaa/constants/y/from /"@ankaa/types"''
     = (''from "./constants/y/from "./types"'', 2)\<close>
  by code_simp

text \<open>
  Whole contents are another matter for the deep rewriter.  Here the sub-path of the
  only match ends with \<open>from\<close>, a blank and a slash; once it is rewritten, the closing
  quote of the converted reference opens what the pattern of \<open>constants\<close> matches in a
  second run.  The converted reference itself is not matched again.
\<close>

lemma deep_second_run_example:
  \<open>replace_deep_imports_content (posix_relpath ''/'') a_ts
       ''from "@ankaa/types/y/from /"@ankaa/constants"''
     = (''from "./types/y/from "@ankaa/constants"'', 1)
   \<and> replace_deep_imports_content (posix_relpath ''/'') a_ts
       ''from "./types/y/from "@ankaa/constants"''
     = (''from "./types/y/from "./constants"'', 1)\<close>
  by code_simp


section \<open>Dynamic imports\<close>

text \<open>
  A match of the deep pattern needs two quotes: the one that ends its first group and
  the closing one.  In a text whose only quotes are those of one dynamic import, the
  first group of a match ends at the opening quote, so a match starts where
  \<open>import\<close> starts, and only for the package of the reference.
\<close>

lemma first_group_Some:
  assumes "match_from_or_import s = Some (pre, r)"
  shows "s = pre @ r"
  using assms
  by (auto simp: match_from_or_import_def split: option.splits
           dest: match_from_Some match_import_Some)

lemma spaces_no_quote: "list_all is_space ws \<Longrightarrow> list_all (\<lambda>c. \<not> is_quote c) ws"
  by (auto simp: list_all_iff dest: quote_not_space)

lemma first_group_quote:
  assumes "match_from_or_import s = Some (pre, r)"
  obtains x q where "pre = x @ [q]" "list_all (\<lambda>c. \<not> is_quote c) x" "is_quote q"
    "(\<exists>ws. x = ''from'' @ ws \<and> list_all is_space ws)
     \<or> (\<exists>w1 w2. x = ''import'' @ w1 @ ''('' @ w2 \<and> list_all is_space w1 \<and> list_all is_space w2)"
  using assms
proof (cases rule: first_group_shape)
  case (static ws q)
  have "list_all (\<lambda>c. \<not> is_quote c) (''from'' @ ws)"
    using spaces_no_quote [OF static(3)] by (simp add: is_quote_def)
  moreover have "pre = (''from'' @ ws) @ [q]" using static(1) by simp
  ultimately show ?thesis using static(3,4) by (intro that [of "''from'' @ ws" q]) auto
next
  case (dynamic ws1 ws2 q)
  have "list_all (\<lambda>c. \<not> is_quote c) (''import'' @ ws1 @ ''('' @ ws2)"
    using spaces_no_quote [OF dynamic(2)] spaces_no_quote [OF dynamic(3)]
    by (simp add: is_quote_def)
  moreover have "pre = (''import'' @ ws1 @ ''('' @ ws2) @ [q]" using dynamic(1) by simp
  ultimately show ?thesis using dynamic(2,3,4)
    by (intro that [of "''import'' @ ws1 @ ''('' @ ws2" q]) auto
qed

lemma first_group_at_quote:
  assumes "match_from_or_import (u @ q # r) = Some (pre, s1)"
    "list_all (\<lambda>c. \<not> is_quote c) u" "is_quote q"
  shows "pre = u @ [q] \<and> s1 = r"
proof -
  from assms(1) obtain x q' where pre: "pre = x @ [q']"
    and x: "list_all (\<lambda>c. \<not> is_quote c) x" and q': "is_quote q'"
    by (rule first_group_quote)
  from first_group_Some [OF assms(1)] pre have e: "u @ q # r = x @ q' # s1" by simp
  from quote_free_split [OF e assms(3) q' assms(2) x] have "u = x" .
  with e pre show ?thesis by simp
qed

lemma match_deep_parts:
  assumes "match_deep p s = Some m"
  obtains pre r0 c s3 where "match_from_or_import s = Some (pre, r0)"
    "match_lit (''@ankaa/'' @ p) r0 = Some (c # s3)" "c = CHR ''/'' \<or> is_quote c"
    "\<exists>q. is_quote q \<and> q \<in> set (c # s3)"
proof -
  from assms obtain pre r0 where a: "match_from_or_import s = Some (pre, r0)"
    by (auto simp: match_deep_def split: option.splits)
  from assms a obtain s2 where b: "match_lit (''@ankaa/'' @ p) r0 = Some s2"
    by (auto simp: match_deep_def split: option.splits)
  from assms a b obtain c s3 where c: "s2 = c # s3"
    by (auto simp: match_deep_def split: list.splits)
  from assms a b c have d: "c = CHR ''/'' \<or> is_quote c"
    by (auto simp: match_deep_def split: if_splits)
  have e: "\<exists>q. is_quote q \<and> q \<in> set (c # s3)"
  proof (cases "c = CHR ''/''")
    case True
    with assms a b c obtain q s4 where dw: "dropWhile (\<lambda>x. \<not> is_quote x) s3 = q # s4"
      by (auto simp: match_deep_def Let_def split: list.splits if_splits)
    then have "q \<in> set s3" using set_dropWhileD [of q "\<lambda>x. \<not> is_quote x" s3] by simp
    moreover have "is_quote q" using hd_dropWhile [of "\<lambda>x. \<not> is_quote x" s3] dw by simp
    ultimately show ?thesis by auto
  next
    case False
    with d show ?thesis by auto
  qed
  from a b [unfolded c] d e show thesis by (rule that)
qed

lemma match_deep_one_quote:
  assumes "list_all (\<lambda>c. \<not> is_quote c) u" "is_quote q" "list_all (\<lambda>c. \<not> is_quote c) b"
  shows "match_deep p (u @ q # b) = None"
proof (rule ccontr)
  assume "match_deep p (u @ q # b) \<noteq> None"
  then obtain m where m: "match_deep p (u @ q # b) = Some m" by auto
  from m obtain pre r0 c s3 where fg: "match_from_or_import (u @ q # b) = Some (pre, r0)"
    and ml: "match_lit (''@ankaa/'' @ p) r0 = Some (c # s3)"
    and ex: "\<exists>q. is_quote q \<and> q \<in> set (c # s3)"
    by (rule match_deep_parts)
  from first_group_at_quote [OF fg assms(1,2)] have "r0 = b" by simp
  with match_lit_Some [OF ml] have "b = (''@ankaa/'' @ p) @ c # s3" by simp
  then have "set (c # s3) \<subseteq> set b" by (metis set_append Un_upper2)
  with ex assms(3) show False by (auto simp: list_all_iff)
qed

lemma match_deep_quote_free:
  assumes "list_all (\<lambda>c. \<not> is_quote c) s"
  shows "match_deep p s = None"
proof (rule ccontr)
  assume "match_deep p s \<noteq> None"
  then obtain m where m: "match_deep p s = Some m" by auto
  from m obtain pre r0 where fg: "match_from_or_import s = Some (pre, r0)"
    by (rule match_deep_parts)
  from fg obtain x q where "pre = x @ [q]" "is_quote q" by (rule first_group_quote)
  with first_group_Some [OF fg] have "q \<in> set s" "is_quote q" by simp_all
  with assms show False by (auto simp: list_all_iff)
qed

lemma finditer_deep_skip:
  assumes "\<And>a2. suffix a2 a \<Longrightarrow> a2 \<noteq> [] \<Longrightarrow> match_deep p (a2 @ s) = None"
  shows "finditer_deep p (a @ s) = finditer_deep p s"
  using assms
proof (induction a)
  case Nil
  show ?case by simp
next
  case (Cons c a)
  have "match_deep p ((c # a) @ s) = None" using Cons.prems [of "c # a"] by simp
  then have "finditer_deep p ((c # a) @ s) = finditer_deep p (a @ s)" by simp
  also have "\<dots> = finditer_deep p s"
  proof (rule Cons.IH)
    fix a2 assume "suffix a2 a" "a2 \<noteq> []"
    then show "match_deep p (a2 @ s) = None" using Cons.prems [of a2] by (simp add: suffix_Cons)
  qed
  finally show ?case .
qed

lemma suffix_quote_free:
  "suffix a2 a \<Longrightarrow> list_all (\<lambda>c. \<not> is_quote c) a \<Longrightarrow> list_all (\<lambda>c. \<not> is_quote c) a2"
  using set_mono_suffix [of a2 a] by (auto simp: list_all_iff)

lemma finditer_deep_quote_free:
  assumes "list_all (\<lambda>c. \<not> is_quote c) s"
  shows "finditer_deep p s = []"
proof -
  have "finditer_deep p (s @ []) = finditer_deep p []"
  proof (rule finditer_deep_skip)
    fix a2 assume "suffix a2 s" "a2 \<noteq> []"
    from suffix_quote_free [OF this(1) assms] show "match_deep p (a2 @ []) = None"
      by (simp add: match_deep_quote_free)
  qed
  then show ?thesis by simp
qed

lemma finditer_deep_one_quote:
  assumes "list_all (\<lambda>c. \<not> is_quote c) u" "is_quote q" "list_all (\<lambda>c. \<not> is_quote c) b"
  shows "finditer_deep p (u @ q # b) = []"
proof -
  have "finditer_deep p (u @ q # b) = finditer_deep p (q # b)"
  proof (rule finditer_deep_skip)
    fix a2 assume "suffix a2 u" "a2 \<noteq> []"
    from suffix_quote_free [OF this(1) assms(1)] show "match_deep p (a2 @ q # b) = None"
      using assms(2,3) by (rule match_deep_one_quote)
  qed
  also have "\<dots> = finditer_deep p b"
    using match_deep_one_quote [of "[]" q b p] assms(2,3) by simp
  also have "\<dots> = []" using assms(3) by (rule finditer_deep_quote_free)
  finally show ?thesis .
qed

lemma takeWhile_stop: "list_all P u \<Longrightarrow> \<not> P c \<Longrightarrow> takeWhile P (u @ c # r) = u"
  by (induction u) auto

lemma stop_split:
  assumes "u @ a # r = v @ b # r'" "list_all P u" "list_all P v" "\<not> P a" "\<not> P b"
  shows "u = v"
proof -
  have "takeWhile P (u @ a # r) = u" using assms(2,4) by (rule takeWhile_stop)
  moreover have "takeWhile P (v @ b # r') = v" using assms(3,5) by (rule takeWhile_stop)
  ultimately show ?thesis using assms(1) by simp
qed

lemma PACKAGES_names:
  "p \<in> set PACKAGES \<Longrightarrow> list_all (\<lambda>c. c \<noteq> CHR ''/'' \<and> \<not> is_quote c) p"
  by (auto simp: PACKAGES_def is_quote_def)

lemma other_package_no_match:
  assumes "p \<in> set PACKAGES" "package \<in> set PACKAGES" "p \<noteq> package"
    "list_all (\<lambda>c. \<not> is_quote c) X" "is_quote q1"
  shows "match_deep p (X @ q1 # ''@ankaa/'' @ package @ ''/'' @ Z) = None"
proof (rule ccontr)
  assume "match_deep p (X @ q1 # ''@ankaa/'' @ package @ ''/'' @ Z) \<noteq> None"
  then obtain m where m: "match_deep p (X @ q1 # ''@ankaa/'' @ package @ ''/'' @ Z) = Some m"
    by auto
  from m obtain pre r0 c s3
    where fg: "match_from_or_import (X @ q1 # ''@ankaa/'' @ package @ ''/'' @ Z) = Some (pre, r0)"
    and ml: "match_lit (''@ankaa/'' @ p) r0 = Some (c # s3)"
    and c: "c = CHR ''/'' \<or> is_quote c"
    by (rule match_deep_parts)
  from first_group_at_quote [OF fg assms(4,5)] have "r0 = ''@ankaa/'' @ package @ ''/'' @ Z"
    by simp
  with match_lit_Some [OF ml] have e: "p @ c # s3 = package @ CHR ''/'' # Z" by simp
  have "p = package"
    using e PACKAGES_names [OF assms(1)] PACKAGES_names [OF assms(2)]
  proof (rule stop_split)
    show "\<not> (c \<noteq> CHR ''/'' \<and> \<not> is_quote c)" using c by auto
    show "\<not> (CHR ''/'' \<noteq> CHR ''/'' \<and> \<not> is_quote (CHR ''/''))" by simp
  qed
  with assms(3) show False ..
qed

lemma no_match_without_at:
  assumes "list_all (\<lambda>c. \<not> is_quote c) X" "is_quote q1" "t \<noteq> []" "hd t \<noteq> CHR ''@''"
  shows "match_deep p (X @ q1 # t) = None"
proof (rule ccontr)
  assume "match_deep p (X @ q1 # t) \<noteq> None"
  then obtain m where m: "match_deep p (X @ q1 # t) = Some m" by auto
  from m obtain pre r0 c s3
    where fg: "match_from_or_import (X @ q1 # t) = Some (pre, r0)"
    and ml: "match_lit (''@ankaa/'' @ p) r0 = Some (c # s3)"
    by (rule match_deep_parts)
  from first_group_at_quote [OF fg assms(1,2)] have "r0 = t" by simp
  with ml match_lit_at_sign [OF assms(3,4), of p] show False by simp
qed

lemma append_meets:
  assumes "A @ c # R = B @ T" "length B \<le> length A"
  shows "c \<in> set T"
  using assms by (auto simp: append_eq_append_conv2)

lemma not_from_run:
  assumes "a2 @ ''import'' @ ws1 @ ''('' @ ws2 = ''from'' @ ws" "list_all is_space ws"
  shows False
proof -
  have "CHR ''('' \<in> set (a2 @ ''import'' @ ws1 @ ''('' @ ws2)" by simp
  then have "CHR ''('' \<in> set (''from'' @ ws)" unfolding assms(1) .
  then have "CHR ''('' \<in> set ws" by simp
  with assms(2) paren_not_space show False by (auto simp: list_all_iff)
qed

lemma not_import_run:
  assumes "a2 @ ''import'' @ ws1 @ ''('' @ ws2 = ''import'' @ w1 @ ''('' @ w2"
    "list_all is_space w1" "list_all is_space w2"
  shows "a2 = []"
proof (rule ccontr)
  assume ne: "a2 \<noteq> []"
  have e: "(a2 @ ''impor'') @ CHR ''t'' # (ws1 @ ''('' @ ws2) = ''import'' @ (w1 @ ''('' @ w2)"
    using assms(1) by simp
  have l: "length ''import'' \<le> length (a2 @ ''impor'')"
    using ne by (cases a2) simp_all
  from append_meets [OF e l] have "CHR ''t'' \<in> set w1 \<or> CHR ''t'' \<in> set w2" by simp
  with assms(2,3) have "is_space (CHR ''t'')" by (auto simp: list_all_iff)
  then show False by (simp add: is_space_def)
qed

lemma dynamic_start_unique:
  assumes "match_deep p (a2 @ ''import'' @ ws1 @ ''('' @ ws2 @ q1 # Z) = Some m"
    "list_all (\<lambda>c. \<not> is_quote c) a2" "list_all is_space ws1" "list_all is_space ws2"
    "is_quote q1"
  shows "a2 = []"
proof -
  let ?X = "a2 @ ''import'' @ ws1 @ ''('' @ ws2"
  have X: "list_all (\<lambda>c. \<not> is_quote c) ?X"
    using assms(2) spaces_no_quote [OF assms(3)] spaces_no_quote [OF assms(4)]
    by (simp add: is_quote_def)
  have t: "a2 @ ''import'' @ ws1 @ ''('' @ ws2 @ q1 # Z = ?X @ q1 # Z" by simp
  from assms(1) obtain pre r0 where fg: "match_from_or_import (?X @ q1 # Z) = Some (pre, r0)"
    unfolding t by (rule match_deep_parts)
  from first_group_at_quote [OF fg X assms(5)] have pre: "pre = ?X @ [q1]" by simp
  from fg obtain x q where px: "pre = x @ [q]"
    and sh: "(\<exists>ws. x = ''from'' @ ws \<and> list_all is_space ws)
     \<or> (\<exists>w1 w2. x = ''import'' @ w1 @ ''('' @ w2 \<and> list_all is_space w1 \<and> list_all is_space w2)"
    by (rule first_group_quote)
  from pre px have x: "x = ?X" by simp
  from sh show ?thesis
  proof (elim disjE exE conjE)
    fix ws assume "x = ''from'' @ ws" "list_all is_space ws"
    with x not_from_run [of a2 ws1 ws2 ws] show ?thesis by simp
  next
    fix w1 w2 assume "x = ''import'' @ w1 @ ''('' @ w2" "list_all is_space w1" "list_all is_space w2"
    with x not_import_run [of a2 ws1 ws2 w1 w2] show ?thesis by simp
  qed
qed

lemma startswith_prefix: "startswith s p \<Longrightarrow> \<exists>r. s = p @ r"
  by (induction s p rule: startswith.induct) auto

lemma replace_first_after_quote_free:
  assumes "list_all (\<lambda>c. \<not> is_quote c) a" "list_all (\<lambda>c. \<not> is_quote c) u" "is_quote q"
  shows "replace_first (u @ q # v) new (a @ (u @ q # v) @ b) = a @ new @ b"
  using assms(1)
proof (induction a)
  case Nil
  show ?case using replace_first_head [of "u @ q # v" new b] by simp
next
  case (Cons c a)
  have ns: "\<not> startswith (c # a @ (u @ q # v) @ b) (u @ q # v)"
  proof
    assume "startswith (c # a @ (u @ q # v) @ b) (u @ q # v)"
    then obtain r where "c # a @ (u @ q # v) @ b = (u @ q # v) @ r"
      using startswith_prefix by blast
    then have e: "(c # a @ u) @ q # (v @ b) = u @ q # (v @ r)" by simp
    have "list_all (\<lambda>c. \<not> is_quote c) (c # a @ u)" using Cons.prems assms(2) by simp
    from quote_free_split [OF e assms(3) assms(3) this assms(2)] have "c # a @ u = u" .
    then have "length (c # a @ u) = length u" by simp
    then show False by simp
  qed
  have "replace_first (u @ q # v) new ((c # a) @ (u @ q # v) @ b)
          = c # replace_first (u @ q # v) new (a @ (u @ q # v) @ b)"
    using ns by simp
  also have "\<dots> = c # a @ new @ b" using Cons.IH Cons.prems by simp
  finally show ?case by simp
qed

lemma dynamic_import_content:
  assumes pk: "package \<in> set PACKAGES"
    and sub: "sub \<noteq> []" "list_all (\<lambda>c. \<not> is_quote c) sub"
    and q: "is_quote q1" "is_quote q2"
    and ws: "list_all is_space ws1" "list_all is_space ws2"
    and a: "list_all (\<lambda>c. \<not> is_quote c) a" and b: "list_all (\<lambda>c. \<not> is_quote c) b"
    and rel: "list_all (\<lambda>c. \<not> is_quote c) (rel_path_for relpath file_path package sub)"
  shows "replace_deep_imports_content relpath file_path
           (a @ ''import'' @ ws1 @ ''('' @ ws2 @ [q1] @ ''@ankaa/'' @ package @ ''/'' @ sub
              @ [q2] @ b)
         = (a @ ''import'' @ ws1 @ ''('' @ ws2 @ [q1]
              @ rel_path_for relpath file_path package sub @ [q2] @ b, 1)"
proof -
  define pre0 where "pre0 = ''import'' @ ws1 @ ''('' @ ws2"
  define rp where "rp = rel_path_for relpath file_path package sub"
  define content where "content = a @ pre0 @ q1 # ''@ankaa/'' @ package @ ''/'' @ sub @ q2 # b"
  define content' where "content' = a @ pre0 @ q1 # rp @ q2 # b"
  define m0 where "m0 = \<lparr>group0 = (pre0 @ [q1]) @ ''@ankaa/'' @ package @ ''/'' @ sub @ [q2],
      prefix_group = pre0 @ [q1], sub_path_group = Some (''/'' @ sub), suffix_group = [q2],
      rest = b\<rparr>"
  have pre0: "list_all (\<lambda>c. \<not> is_quote c) pre0"
    using spaces_no_quote [OF ws(1)] spaces_no_quote [OF ws(2)]
    by (simp add: pre0_def is_quote_def)
  have apre0: "list_all (\<lambda>c. \<not> is_quote c) (a @ pre0)" using a pre0 by simp
  have pkq: "list_all (\<lambda>c. \<not> is_quote c) package"
    using PACKAGES_plain [OF pk] by (simp add: plain_name_def)
  have Y: "list_all (\<lambda>c. \<not> is_quote c) (''@ankaa/'' @ package @ ''/'' @ sub)"
    using pkq sub(2) by (simp add: is_quote_def)
  have rph: "rp \<noteq> []" "hd rp \<noteq> CHR ''@''"
    using get_relative_path_deep_head [OF pk, of relpath file_path]
    by (simp_all add: rp_def rel_path_for_def)
  have rph': "rp @ q2 # b \<noteq> []" "hd (rp @ q2 # b) \<noteq> CHR ''@''"
    using rph by simp_all
  have other: "finditer_deep p content = []" if p: "p \<in> set PACKAGES" "p \<noteq> package" for p
  proof -
    have "finditer_deep p ((a @ pre0) @ q1 # ''@ankaa/'' @ package @ ''/'' @ sub @ q2 # b)
            = finditer_deep p (q1 # ''@ankaa/'' @ package @ ''/'' @ sub @ q2 # b)"
    proof (rule finditer_deep_skip)
      fix a2 assume "suffix a2 (a @ pre0)" "a2 \<noteq> []"
      from suffix_quote_free [OF this(1) apre0]
      show "match_deep p (a2 @ q1 # ''@ankaa/'' @ package @ ''/'' @ sub @ q2 # b) = None"
        using other_package_no_match [OF p(1) pk p(2) _ q(1), of a2 "sub @ q2 # b"] by simp
    qed
    also have "\<dots> = finditer_deep p ((''@ankaa/'' @ package @ ''/'' @ sub) @ q2 # b)"
      using other_package_no_match [OF p(1) pk p(2) _ q(1), of "[]" "sub @ q2 # b"] by simp
    also have "\<dots> = []" using Y q(2) b by (rule finditer_deep_one_quote)
    finally show ?thesis by (simp add: content_def)
  qed
  have m0: "match_deep package (pre0 @ q1 # ''@ankaa/'' @ package @ ''/'' @ sub @ q2 # b) = Some m0"
  proof -
    have fg: "match_from_or_import ((pre0 @ [q1]) @ []) = Some (pre0 @ [q1], [])"
      using first_group_dynamic [OF ws q(1), of "[]"] by (simp add: pre0_def)
    from match_deep_sub_intro [OF fg sub q(2), of package b] show ?thesis
      by (simp add: m0_def)
  qed
  have same: "finditer_deep package content = [m0]"
  proof -
    have "finditer_deep package (a @ pre0 @ q1 # ''@ankaa/'' @ package @ ''/'' @ sub @ q2 # b)
            = finditer_deep package (pre0 @ q1 # ''@ankaa/'' @ package @ ''/'' @ sub @ q2 # b)"
    proof (rule finditer_deep_skip)
      fix a2 assume s: "suffix a2 a" and ne: "a2 \<noteq> []"
      show "match_deep package (a2 @ pre0 @ q1 # ''@ankaa/'' @ package @ ''/'' @ sub @ q2 # b)
              = None"
      proof (rule ccontr)
        assume "match_deep package
                  (a2 @ pre0 @ q1 # ''@ankaa/'' @ package @ ''/'' @ sub @ q2 # b) \<noteq> None"
        then obtain m where "match_deep package
            (a2 @ ''import'' @ ws1 @ ''('' @ ws2 @ q1 # ''@ankaa/'' @ package @ ''/'' @ sub @ q2 # b)
              = Some m"
          by (auto simp: pre0_def)
        from dynamic_start_unique [OF this suffix_quote_free [OF s a] ws q(1)] ne
        show False by simp
      qed
    qed
    also have "\<dots> = m0 # finditer_deep package b"
    proof -
      obtain c cs where cc: "pre0 @ q1 # ''@ankaa/'' @ package @ ''/'' @ sub @ q2 # b = c # cs"
        by (simp add: pre0_def)
      have r: "rest m0 = b" by (simp add: m0_def)
      show ?thesis using m0 unfolding cc by (simp add: r)
    qed
    also have "finditer_deep package b = []" using b by (rule finditer_deep_quote_free)
    finally show ?thesis by (simp add: content_def)
  qed
  have after: "finditer_deep p content' = []" for p
  proof -
    have "finditer_deep p ((a @ pre0) @ q1 # rp @ q2 # b) = finditer_deep p (q1 # rp @ q2 # b)"
    proof (rule finditer_deep_skip)
      fix a2 assume "suffix a2 (a @ pre0)" "a2 \<noteq> []"
      from suffix_quote_free [OF this(1) apre0]
      show "match_deep p (a2 @ q1 # rp @ q2 # b) = None"
        using q(1) rph' by (rule no_match_without_at)
    qed
    also have "\<dots> = finditer_deep p (rp @ q2 # b)"
      using no_match_without_at [OF _ q(1) rph', of "[]" p] by simp
    also have "\<dots> = []" using rel [folded rp_def] q(2) b by (rule finditer_deep_one_quote)
    finally show ?thesis by (simp add: content'_def)
  qed
  have nt: "new_text_deep relpath file_path package m0 = pre0 @ q1 # rp @ [q2]"
    using sub(1) by (simp add: new_text_deep_def rel_path_for_def rp_def m0_def lstrip_sep_def Let_def)
  have g0: "group0 m0 = pre0 @ q1 # (''@ankaa/'' @ package @ ''/'' @ sub @ [q2])"
    by (simp add: m0_def)
  have rf: "replace_first (group0 m0) (new_text_deep relpath file_path package m0) content
              = content'"
    unfolding g0 nt
    using replace_first_after_quote_free [OF a pre0 q(1),
        of "''@ankaa/'' @ package @ ''/'' @ sub @ [q2]" "pre0 @ q1 # rp @ [q2]" b]
    by (simp add: content_def content'_def)
  have step: "deep_package_step relpath file_path (content, n) package = (content', n + 1)" for n
    by (simp add: deep_package_step_def same deep_match_step_def rf Let_def)
  from split_list_first [OF pk] obtain before after'
    where pl: "PACKAGES = before @ package # after'" and nb: "package \<notin> set before" by blast
  have b1: "foldl (deep_package_step relpath file_path) (content, 0) before = (content, 0)"
  proof (rule foldl_deep_no_match, intro ballI)
    fix p assume "p \<in> set before"
    moreover have "set before \<subseteq> set PACKAGES" unfolding pl by auto
    ultimately have "p \<in> set PACKAGES" "p \<noteq> package" using nb by auto
    then show "finditer_deep p (fst (content, 0::nat)) = []" using other by simp
  qed
  have b2: "foldl (deep_package_step relpath file_path) (content', 1) after' = (content', 1)"
    by (rule foldl_deep_no_match) (simp add: after)
  have "replace_deep_imports_content relpath file_path content = (content', 1)"
    unfolding replace_deep_imports_content_def pl
    using b1 b2 step [of 0] by simp
  then show ?thesis
    by (simp add: content_def content'_def pre0_def rp_def)
qed

text \<open>
  Claim C6, as amended: in \<open>replace-imports-deep.py\<close>, a dynamic import
  \<open>import("@ankaa/<pkg>/<subpath>")\<close>, with any white space the pattern allows around
  the parenthesis, is matched by the pattern.  The step of the rewriter on this match
  keeps the text up to and including the opening quote and the closing quote as they
  are and puts between them the relative path for the package and sub-path, which is
  the path it puts into the static \<open>from\<close> import of the same package and sub-path.
  For a configured package, in a content that holds no quote but those of the dynamic
  import, and when the relative path holds no quote, the rewriter returns the content
  with the path of the import replaced so, all other text as it was, and count 1.
\<close>

theorem dynamic_import_rewritten:
  assumes "sub \<noteq> []" "list_all (\<lambda>c. \<not> is_quote c) sub" "is_quote q1" "is_quote q2"
    "list_all is_space ws1" "list_all is_space ws2" "ws \<noteq> []" "list_all is_space ws"
  shows
    "(\<exists>m. match_deep package
            (''import'' @ ws1 @ ''('' @ ws2 @ [q1] @ ''@ankaa/'' @ package @ ''/'' @ sub @ [q2] @ r)
            = Some m
        \<and> prefix_group m = ''import'' @ ws1 @ ''('' @ ws2 @ [q1]
        \<and> suffix_group m = [q2]
        \<and> deep_match_step relpath file_path package
            (''import'' @ ws1 @ ''('' @ ws2 @ [q1] @ ''@ankaa/'' @ package @ ''/'' @ sub @ [q2] @ r, n) m
            = (''import'' @ ws1 @ ''('' @ ws2 @ [q1]
                 @ rel_path_for relpath file_path package sub @ [q2] @ r, n + 1))
   \<and> (\<exists>m. match_deep package
            (''from'' @ ws @ [q1] @ ''@ankaa/'' @ package @ ''/'' @ sub @ [q2] @ r) = Some m
        \<and> prefix_group m = ''from'' @ ws @ [q1]
        \<and> suffix_group m = [q2]
        \<and> deep_match_step relpath file_path package
            (''from'' @ ws @ [q1] @ ''@ankaa/'' @ package @ ''/'' @ sub @ [q2] @ r, n) m
            = (''from'' @ ws @ [q1] @ rel_path_for relpath file_path package sub @ [q2] @ r, n + 1))
   \<and> (package \<in> set PACKAGES
        \<and> list_all (\<lambda>c. \<not> is_quote c) a \<and> list_all (\<lambda>c. \<not> is_quote c) b
        \<and> list_all (\<lambda>c. \<not> is_quote c) (rel_path_for relpath file_path package sub)
      \<longrightarrow> replace_deep_imports_content relpath file_path
            (a @ ''import'' @ ws1 @ ''('' @ ws2 @ [q1] @ ''@ankaa/'' @ package @ ''/'' @ sub
               @ [q2] @ b)
          = (a @ ''import'' @ ws1 @ ''('' @ ws2 @ [q1]
               @ rel_path_for relpath file_path package sub @ [q2] @ b, 1))"
proof (intro conjI)
  have step: "\<exists>m. match_deep package (pre @ ''@ankaa/'' @ package @ ''/'' @ sub @ [q2] @ r) = Some m
        \<and> prefix_group m = pre \<and> suffix_group m = [q2]
        \<and> deep_match_step relpath file_path package
            (pre @ ''@ankaa/'' @ package @ ''/'' @ sub @ [q2] @ r, n) m
            = (pre @ rel_path_for relpath file_path package sub @ [q2] @ r, n + 1)"
    if fg: "match_from_or_import (pre @ r0) = Some (pre, r0)" for pre r0
  proof -
    let ?m = "\<lparr>group0 = pre @ ''@ankaa/'' @ package @ ''/'' @ sub @ [q2], prefix_group = pre,
                sub_path_group = Some (''/'' @ sub), suffix_group = [q2], rest = r\<rparr>"
    have m: "match_deep package (pre @ ''@ankaa/'' @ package @ ''/'' @ sub @ [q2] @ r) = Some ?m"
      using match_deep_sub_intro [OF fg assms(1,2,4), of package r] by simp
    have nt: "new_text_deep relpath file_path package ?m
                = pre @ rel_path_for relpath file_path package sub @ [q2]"
      by (simp add: new_text_deep_def rel_path_for_def lstrip_sep_def Let_def)
    have "deep_match_step relpath file_path package
            (pre @ ''@ankaa/'' @ package @ ''/'' @ sub @ [q2] @ r, n) ?m
          = (pre @ rel_path_for relpath file_path package sub @ [q2] @ r, n + 1)"
      using deep_match_step_head [OF m, of relpath file_path n] nt by simp
    with m show ?thesis by simp
  qed
  have a: "match_from_or_import ((''import'' @ ws1 @ ''('' @ ws2 @ [q1]) @ [])
             = Some (''import'' @ ws1 @ ''('' @ ws2 @ [q1], [])"
    using first_group_dynamic [OF assms(5,6,3), of "[]"] by simp
  have b: "match_from_or_import ((''from'' @ ws @ [q1]) @ []) = Some (''from'' @ ws @ [q1], [])"
    using first_group_static [OF assms(7,8,3), of "[]"] by simp
  show "\<exists>m. match_deep package
            (''import'' @ ws1 @ ''('' @ ws2 @ [q1] @ ''@ankaa/'' @ package @ ''/'' @ sub @ [q2] @ r)
            = Some m
        \<and> prefix_group m = ''import'' @ ws1 @ ''('' @ ws2 @ [q1]
        \<and> suffix_group m = [q2]
        \<and> deep_match_step relpath file_path package
            (''import'' @ ws1 @ ''('' @ ws2 @ [q1] @ ''@ankaa/'' @ package @ ''/'' @ sub @ [q2] @ r, n) m
            = (''import'' @ ws1 @ ''('' @ ws2 @ [q1]
                 @ rel_path_for relpath file_path package sub @ [q2] @ r, n + 1)"
    using step [OF a] by simp
  show "\<exists>m. match_deep package
            (''from'' @ ws @ [q1] @ ''@ankaa/'' @ package @ ''/'' @ sub @ [q2] @ r) = Some m
        \<and> prefix_group m = ''from'' @ ws @ [q1]
        \<and> suffix_group m = [q2]
        \<and> deep_match_step relpath file_path package
            (''from'' @ ws @ [q1] @ ''@ankaa/'' @ package @ ''/'' @ sub @ [q2] @ r, n) m
            = (''from'' @ ws @ [q1] @ rel_path_for relpath file_path package sub @ [q2] @ r, n + 1)"
    using step [OF b] by simp
  show "package \<in> set PACKAGES
        \<and> list_all (\<lambda>c. \<not> is_quote c) a \<and> list_all (\<lambda>c. \<not> is_quote c) b
        \<and> list_all (\<lambda>c. \<not> is_quote c) (rel_path_for relpath file_path package sub)
      \<longrightarrow> replace_deep_imports_content relpath file_path
            (a @ ''import'' @ ws1 @ ''('' @ ws2 @ [q1] @ ''@ankaa/'' @ package @ ''/'' @ sub
               @ [q2] @ b)
          = (a @ ''import'' @ ws1 @ ''('' @ ws2 @ [q1]
               @ rel_path_for relpath file_path package sub @ [q2] @ b, 1)"
    using dynamic_import_content [OF _ assms(1,2,3,4,5,6)] by blast
qed

theorem dynamic_import_rewritten_witness:
  \<open>''user'' \<noteq> [] \<and> list_all (\<lambda>c. \<not> is_quote c) ''user'' \<and> is_quote dquote
   \<and> list_all is_space [] \<and> '' '' \<noteq> [] \<and> list_all is_space '' ''
   \<and> ''types'' \<in> set PACKAGES
   \<and> list_all (\<lambda>c. \<not> is_quote c) ''const m = await ''
   \<and> list_all (\<lambda>c. \<not> is_quote c) '')''
   \<and> rel_path_for (posix_relpath ''/'') button_ts ''types'' ''user'' = ''../../types/user''
   \<and> list_all (\<lambda>c. \<not> is_quote c) (rel_path_for (posix_relpath ''/'') button_ts ''types'' ''user'')
   \<and> (\<exists>m. match_deep ''types'' ''import("@ankaa/types/user")'' = Some m
          \<and> prefix_group m = ''import("'' \<and> suffix_group m = ''"''
          \<and> deep_match_step (posix_relpath ''/'') button_ts ''types''
               (''import("@ankaa/types/user")'', 0) m = (''import("../../types/user")'', 1))
   \<and> replace_deep_imports_content (posix_relpath ''/'') button_ts
        ''const m = await import("@ankaa/types/user")''
       = (''const m = await import("../../types/user")'', 1)\<close>
proof -
  have h: "''user'' \<noteq> []" "list_all (\<lambda>c. \<not> is_quote c) ''user''" "is_quote dquote"
    "list_all is_space []" "'' '' \<noteq> []" "list_all is_space '' ''"
    by (simp_all add: is_quote_def is_space_def)
  have k: "''types'' \<in> set PACKAGES" "list_all (\<lambda>c. \<not> is_quote c) ''const m = await ''"
    "list_all (\<lambda>c. \<not> is_quote c) '')''"
    by (simp_all add: PACKAGES_def is_quote_def)
  have rel: "rel_path_for (posix_relpath ''/'') button_ts ''types'' ''user'' = ''../../types/user''"
    by code_simp
  have relq: "list_all (\<lambda>c. \<not> is_quote c)
                (rel_path_for (posix_relpath ''/'') button_ts ''types'' ''user'')"
    unfolding rel by (simp add: is_quote_def)
  note t = dynamic_import_rewritten [OF h(1,2,3,3,4,4,5,6), of "''types''" "'')''"
      "posix_relpath ''/''" button_ts 0 "''const m = await ''" "'')''"]
  from t [THEN conjunct1]
  have step: \<open>\<exists>m. match_deep ''types'' ''import("@ankaa/types/user")'' = Some m
          \<and> prefix_group m = ''import("'' \<and> suffix_group m = ''"''
          \<and> deep_match_step (posix_relpath ''/'') button_ts ''types''
               (''import("@ankaa/types/user")'', 0) m = (''import("../../types/user")'', 1)\<close>
    unfolding rel by simp
  from k relq have "''types'' \<in> set PACKAGES
        \<and> list_all (\<lambda>c. \<not> is_quote c) ''const m = await ''
        \<and> list_all (\<lambda>c. \<not> is_quote c) '')''
        \<and> list_all (\<lambda>c. \<not> is_quote c)
              (rel_path_for (posix_relpath ''/'') button_ts ''types'' ''user'')"
    by blast
  from t [THEN conjunct2, THEN conjunct2, THEN mp, OF this]
  have whole: \<open>replace_deep_imports_content (posix_relpath ''/'') button_ts
        ''const m = await import("@ankaa/types/user")''
       = (''const m = await import("../../types/user")'', 1)\<close>
    unfolding rel by simp
  from h k rel relq step whole show ?thesis by blast
qed

text \<open>
  Claim C6 as stated fails for \<open>replace-imports.py\<close>: its pattern has the \<open>from\<close> form
  only, so no match is found in a dynamic import, with or without a sub-path, and the
  text is returned as it is with count 0; the static import of the same package is
  rewritten.
\<close>

theorem dynamic_import_not_recognised:
  \<open>findall_simple ''types'' ''const m = await import("@ankaa/types/user")'' = []
   \<and> replace_imports_content (posix_relpath ''/'') button_ts
         ''const m = await import("@ankaa/types/user")''
       = (''const m = await import("@ankaa/types/user")'', 0)
   \<and> replace_imports_content (posix_relpath ''/'') button_ts
         ''const m = await import("@ankaa/types")''
       = (''const m = await import("@ankaa/types")'', 0)
   \<and> replace_imports_content (posix_relpath ''/'') button_ts
         ''import { x } from "@ankaa/types"''
       = (''import { x } from "../../types"'', 1)\<close>
  by code_simp

end
